theory Spec2Isabelle
  imports Complex_Main "HOL-Library.Char_ord" "HOL-Library.List_Lexorder"
begin

section \<open>Numbers, random draws and dates shared by the two generators\<close>

text \<open>
  JavaScript numbers are modelled by the reals: every product, quotient and sum is
  exact, and \<^verbatim>\<open>Math.round\<close> rounds halves upwards. The amounts of the generators are
  far below \<open>2^53\<close>, so integers are exact in the program as well.

  \<^verbatim>\<open>Math.random()\<close> is modelled by a stream \<open>rs\<close> of reals: \<open>rs 0\<close> is the result of the
  next call, \<open>rs 1\<close> of the call after it, and so on; \<open>advance k rs\<close> is the stream
  after \<open>k\<close> calls. Every result of \<^verbatim>\<open>Math.random()\<close> lies in \<open>[0, 1)\<close>, which is
  \<open>unit_draws\<close>.
\<close>

type_synonym rng = "nat \<Rightarrow> real"

definition unit_draws :: "rng \<Rightarrow> bool" where
  "unit_draws rs = (\<forall>n. 0 \<le> rs n \<and> rs n < 1)"

definition advance :: "nat \<Rightarrow> rng \<Rightarrow> rng" where
  "advance k rs = (\<lambda>n. rs (n + k))"

definition js_round :: "real \<Rightarrow> int" where
  "js_round x = \<lfloor>x + 1 / 2\<rfloor>"

text \<open>\<^verbatim>\<open>randomBetween(min, max)\<close>, with \<open>u\<close> the result of its call of \<^verbatim>\<open>Math.random()\<close>.\<close>

definition randomBetween :: "int \<Rightarrow> int \<Rightarrow> real \<Rightarrow> int" where
  "randomBetween mn mx u = \<lfloor>u * real_of_int (mx - mn + 1) + real_of_int mn\<rfloor>"

text \<open>\<^verbatim>\<open>randomFloatBetween(min, max)\<close> with its default precision 2.\<close>

definition randomFloatBetween :: "real \<Rightarrow> real \<Rightarrow> real \<Rightarrow> real" where
  "randomFloatBetween mn mx u =
     (let value = u * (mx - mn) + mn;
          multiplier = 10 ^ 2
      in real_of_int (js_round (value * multiplier)) / multiplier)"

text \<open>
  A number that a division produced: \<open>NotFinite\<close> stands for \<^verbatim>\<open>NaN\<close> and the two
  infinities, which is what JavaScript returns for a zero divisor. \<^verbatim>\<open>toFixed(k)\<close>
  renders a number with \<open>k\<close> decimals (halves away from zero); the model keeps the
  number that the rendered string denotes.
\<close>

datatype jsnum = Number real | NotFinite

definition js_div :: "real \<Rightarrow> real \<Rightarrow> jsnum" where
  "js_div a b = (if b = 0 then NotFinite else Number (a / b))"

fun toFixed :: "nat \<Rightarrow> jsnum \<Rightarrow> jsnum" where
  "toFixed k (Number x) = Number (sgn x * real_of_int \<lfloor>\<bar>x\<bar> * 10 ^ k + 1 / 2\<rfloor> / 10 ^ k)"
| "toFixed k NotFinite = NotFinite"

text \<open>A number within the tolerance \<open>10\<^sup>-\<^sup>4\<close> of a real.\<close>

definition close_to :: "jsnum \<Rightarrow> real \<Rightarrow> bool" where
  "close_to v x = (case v of Number y \<Rightarrow> \<bar>y - x\<bar> \<le> 1 / 10000 | NotFinite \<Rightarrow> False)"

text \<open>\<^verbatim>\<open>String(n)\<close> for a natural number and \<^verbatim>\<open>padStart\<close>.\<close>

fun String_num :: "nat \<Rightarrow> string" where
  "String_num n =
     (if n < 10 then [char_of (48 + n)]
      else String_num (n div 10) @ [char_of (48 + n mod 10)])"

declare String_num.simps [simp del]

definition padStart :: "nat \<Rightarrow> char \<Rightarrow> string \<Rightarrow> string" where
  "padStart k c s = replicate (k - length s) c @ s"

subsection \<open>Calendar\<close>

text \<open>
  A calendar date written \<^verbatim>\<open>YYYY-MM-DD\<close> is the triple of its numbers. A date that
  \<^verbatim>\<open>formatDate\<close> printed (through \<^verbatim>\<open>toISOString\<close>, so in UTC) is kept as the number of
  its day, counted from 1970-01-01; the day number orders dates as their strings do.

  The host's time zone is a parameter: \<open>tz\<close> is its offset from UTC in minutes (local
  time is UTC plus \<open>tz\<close>), taken to be the same during the whole run.
\<close>

type_synonym ymd = "int \<times> int \<times> int"

definition valid_tz :: "int \<Rightarrow> bool" where
  "valid_tz tz = (- 720 \<le> tz \<and> tz \<le> 840)"

definition leap_year :: "int \<Rightarrow> bool" where
  "leap_year y = (y mod 4 = 0 \<and> (y mod 100 \<noteq> 0 \<or> y mod 400 = 0))"

text \<open>Months are numbered from 0 here, as \<^verbatim>\<open>getMonth\<close> does.\<close>

definition days_in_month :: "int \<Rightarrow> int \<Rightarrow> int" where
  "days_in_month y m =
     (if m = 1 then (if leap_year y then 29 else 28)
      else if m = 3 \<or> m = 5 \<or> m = 8 \<or> m = 10 then 30 else 31)"

text \<open>The day number of the date \<open>y-m-d\<close>, months numbered from 1.\<close>

definition days_from_civil :: "int \<Rightarrow> int \<Rightarrow> int \<Rightarrow> int" where
  "days_from_civil y m d =
     (let y' = (if m \<le> 2 then y - 1 else y);
          era = y' div 400;
          yoe = y' - era * 400;
          mp = (if m > 2 then m - 3 else m + 9);
          doy = (153 * mp + 2) div 5 + d - 1;
          doe = yoe * 365 + yoe div 4 - yoe div 100 + doy
      in era * 146097 + doe - 719468)"

definition day_of :: "ymd \<Rightarrow> int" where
  "day_of s = (case s of (y, m, d) \<Rightarrow> days_from_civil y m d)"

section \<open>The monthly financial generator (generate-fin-data.js)\<close>

subsection \<open>Date objects\<close>

text \<open>
  This generator reads and writes its \<^verbatim>\<open>Date\<close> objects through the local-time
  accessors, so a \<^verbatim>\<open>Date\<close> is modelled by its local fields: year, month (from 0),
  day of the month and minute of the day.
\<close>

record jsdate =
  getFullYear :: int
  getMonth :: int
  getDate :: int
  minuteOfDay :: int

text \<open>\<^verbatim>\<open>new Date(year, month, day)\<close>: local midnight.\<close>

definition Date_local :: "int \<Rightarrow> int \<Rightarrow> int \<Rightarrow> jsdate" where
  "Date_local y m d = \<lparr>getFullYear = y, getMonth = m, getDate = d, minuteOfDay = 0\<rparr>"

text \<open>
  \<^verbatim>\<open>new Date('YYYY-MM-DD')\<close>: midnight UTC of that day. In local time this is the
  same day at minute \<open>tz\<close>, or the day before when the zone is behind UTC.
\<close>

definition Date_parse :: "int \<Rightarrow> ymd \<Rightarrow> jsdate" where
  "Date_parse tz s =
     (case s of (y, m, d) \<Rightarrow>
        if 0 \<le> tz then \<lparr>getFullYear = y, getMonth = m - 1, getDate = d, minuteOfDay = tz\<rparr>
        else if 1 < d then
          \<lparr>getFullYear = y, getMonth = m - 1, getDate = d - 1, minuteOfDay = 1440 + tz\<rparr>
        else if 1 < m then
          \<lparr>getFullYear = y, getMonth = m - 2, getDate = days_in_month y (m - 2),
           minuteOfDay = 1440 + tz\<rparr>
        else \<lparr>getFullYear = y - 1, getMonth = 11, getDate = 31, minuteOfDay = 1440 + tz\<rparr>)"

text \<open>Comparison of two \<^verbatim>\<open>Date\<close> objects, which compares their instants.\<close>

definition date_less :: "jsdate \<Rightarrow> jsdate \<Rightarrow> bool" where
  "date_less a b =
     (getFullYear a < getFullYear b \<or>
      (getFullYear a = getFullYear b \<and>
       (getMonth a < getMonth b \<or>
        (getMonth a = getMonth b \<and>
         (getDate a < getDate b \<or>
          (getDate a = getDate b \<and> minuteOfDay a < minuteOfDay b))))))"

definition date_le :: "jsdate \<Rightarrow> jsdate \<Rightarrow> bool" where
  "date_le a b = (\<not> date_less b a)"

text \<open>\<^verbatim>\<open>date.setDate(1)\<close>.\<close>

definition setDate1 :: "jsdate \<Rightarrow> jsdate" where
  "setDate1 d = d\<lparr>getDate := 1\<rparr>"

text \<open>
  \<^verbatim>\<open>date.setMonth(m)\<close>: a month outside 0..11 carries into the year, and a day that
  the new month does not have carries into the month after it (exact for days 1..31).
\<close>

definition norm_month :: "int \<Rightarrow> int \<Rightarrow> int \<times> int" where
  "norm_month y m = (y + m div 12, m mod 12)"

definition setMonth :: "jsdate \<Rightarrow> int \<Rightarrow> jsdate" where
  "setMonth d m =
     (case norm_month (getFullYear d) m of (y1, m1) \<Rightarrow>
        if getDate d \<le> days_in_month y1 m1 then d\<lparr>getFullYear := y1, getMonth := m1\<rparr>
        else (case norm_month y1 (m1 + 1) of (y2, m2) \<Rightarrow>
                d\<lparr>getFullYear := y2, getMonth := m2,
                  getDate := getDate d - days_in_month y1 m1\<rparr>))"

text \<open>\<^verbatim>\<open>formatDate(date)\<close>: the UTC day on which the instant falls.\<close>

definition formatDate :: "int \<Rightarrow> jsdate \<Rightarrow> int" where
  "formatDate tz d =
     days_from_civil (getFullYear d) (getMonth d + 1) (getDate d)
       + (minuteOfDay d - tz) div 1440"

definition START_DATE :: jsdate where
  "START_DATE = Date_local 2020 0 1"

definition END_DATE :: jsdate where
  "END_DATE = Date_local 2025 3 1"

subsection \<open>Reference data\<close>

record location =
  loc_id :: string
  loc_name :: string
  opened_date :: ymd
  square_footage :: int
  monthly_rent :: int

definition LOC001 :: location where
  "LOC001 = \<lparr>loc_id = ''LOC001'', loc_name = ''Downtown Dental'',
     opened_date = (2015, 3, 15), square_footage = 3200, monthly_rent = 12800\<rparr>"

definition LOC002 :: location where
  "LOC002 = \<lparr>loc_id = ''LOC002'', loc_name = ''Westside Smile Center'',
     opened_date = (2017, 6, 22), square_footage = 2800, monthly_rent = 9800\<rparr>"

definition LOC003 :: location where
  "LOC003 = \<lparr>loc_id = ''LOC003'', loc_name = ''East Valley Dental Care'',
     opened_date = (2019, 11, 10), square_footage = 2400, monthly_rent = 7200\<rparr>"

definition locations :: "location list" where
  "locations = [LOC001, LOC002, LOC003]"

definition serviceCategories :: "string list" where
  "serviceCategories =
     [''Diagnostic'', ''Preventive'', ''Restorative'', ''Endodontic'', ''Periodontic'',
      ''Prosthodontic'', ''Oral Surgery'', ''Orthodontic'', ''Implant'', ''Adjunctive'']"

definition categoryWeights :: "(string \<times> real) list" where
  "categoryWeights =
     [(''Diagnostic'', 0.10), (''Preventive'', 0.20), (''Restorative'', 0.25),
      (''Endodontic'', 0.08), (''Periodontic'', 0.07), (''Prosthodontic'', 0.10),
      (''Oral Surgery'', 0.05), (''Orthodontic'', 0.08), (''Implant'', 0.05),
      (''Adjunctive'', 0.02)]"

text \<open>The names of \<^verbatim>\<open>insuranceProviders\<close> of this generator, in their order.\<close>

definition payorNames :: "string list" where
  "payorNames =
     [''Delta Dental'', ''Cigna Dental'', ''Aetna'', ''MetLife'', ''Guardian'',
      ''United Healthcare'', ''Self-Pay'']"

definition payorWeights :: "(string \<times> real) list" where
  "payorWeights =
     [(''Delta Dental'', 0.30), (''Cigna Dental'', 0.15), (''Aetna'', 0.12),
      (''MetLife'', 0.10), (''Guardian'', 0.08), (''United Healthcare'', 0.05),
      (''Self-Pay'', 0.20)]"

text \<open>
  \<^verbatim>\<open>categoryWeights[category]\<close>. Every service category has an entry
  (\<open>categoryWeights_complete\<close> below), so the last case is never taken.
\<close>

definition categoryWeight :: "string \<Rightarrow> real" where
  "categoryWeight c = (case map_of categoryWeights c of Some w \<Rightarrow> w | None \<Rightarrow> 0)"

text \<open>\<^verbatim>\<open>payorWeights[provider.name] || 0.02\<close>.\<close>

definition payorWeight :: "string \<Rightarrow> real" where
  "payorWeight c =
     (case map_of payorWeights c of Some w \<Rightarrow> (if w = 0 then 0.02 else w) | None \<Rightarrow> 0.02)"

subsection \<open>Seasonal and growth factors\<close>

definition getSeasonalFactor :: "jsdate \<Rightarrow> real \<Rightarrow> real" where
  "getSeasonalFactor date u =
     (let month = getMonth date
      in if month = 11 \<or> month = 0 \<or> month = 1 then randomFloatBetween 0.85 0.95 u
         else if 2 \<le> month \<and> month \<le> 4 then randomFloatBetween 1.05 1.15 u
         else if 5 \<le> month \<and> month \<le> 7 then randomFloatBetween 0.9 1.1 u
         else randomFloatBetween 0.95 1.05 u)"

definition yearsSinceOpening :: "int \<Rightarrow> jsdate \<Rightarrow> location \<Rightarrow> real" where
  "yearsSinceOpening tz date l =
     (let locationOpenDate = Date_parse tz (opened_date l)
      in real_of_int (getFullYear date - getFullYear locationOpenDate)
         + real_of_int (getMonth date - getMonth locationOpenDate) / 12)"

definition getGrowthFactor :: "int \<Rightarrow> jsdate \<Rightarrow> location \<Rightarrow> real \<Rightarrow> real" where
  "getGrowthFactor tz date l u =
     (let y = yearsSinceOpening tz date l
      in if y < 2 then 1 + (y * 0.2) * randomFloatBetween 0.9 1.1 u
         else if y < 4 then 1 + (0.4 + ((y - 2) * 0.12) * randomFloatBetween 0.9 1.1 u)
         else 1 + (0.64 + ((y - 4) * 0.055) * randomFloatBetween 0.9 1.1 u))"

subsection \<open>One monthly record\<close>

text \<open>
  One call of \<^verbatim>\<open>generateMonthlyFinancialData\<close> calls \<^verbatim>\<open>Math.random()\<close> 53 times, in
  this order: seasonal factor (draw 0), growth factor (1), base revenue (2), the ten
  service categories (3 to 12), the fifteen expenses (13 to 27), receivables (28 to 32),
  claims (33 to 35), collections (36), procedures (37 to 39), patients (40, 41), chair
  hours (42), the seven payors (43 to 49) and the treatment plans (50 to 52).
\<close>

definition baseRevenue :: "location \<Rightarrow> real \<Rightarrow> int" where
  "baseRevenue l u =
     (if loc_id l = ''LOC001'' then randomBetween 180000 220000 u
      else if loc_id l = ''LOC002'' then randomBetween 140000 170000 u
      else randomBetween 100000 130000 u)"

definition totalRevenue :: "int \<Rightarrow> jsdate \<Rightarrow> location \<Rightarrow> rng \<Rightarrow> int" where
  "totalRevenue tz date l rs =
     js_round (real_of_int (baseRevenue l (rs 2)) * getSeasonalFactor date (rs 0)
                 * getGrowthFactor tz date l (rs 1))"

text \<open>
  The two loops over the categories: the first perturbs each weight with one draw and
  adds the results up, the second replaces each by its rounded share of the total.
\<close>

fun perturb :: "(string \<Rightarrow> real) \<Rightarrow> string list \<Rightarrow> rng \<Rightarrow> nat \<Rightarrow> real list" where
  "perturb w [] rs k = []"
| "perturb w (c # cs) rs k =
     w c * randomFloatBetween 0.85 1.15 (rs k) # perturb w cs rs (Suc k)"

definition normalize :: "real list \<Rightarrow> int \<Rightarrow> int list" where
  "normalize ws revenue =
     (let totalWeight = sum_list ws
      in map (\<lambda>w. js_round ((w / totalWeight) * real_of_int revenue)) ws)"

definition serviceRevenue :: "int \<Rightarrow> jsdate \<Rightarrow> location \<Rightarrow> rng \<Rightarrow> int list" where
  "serviceRevenue tz date l rs =
     normalize (perturb categoryWeight serviceCategories rs 3) (totalRevenue tz date l rs)"

definition payorMix :: "int \<Rightarrow> jsdate \<Rightarrow> location \<Rightarrow> rng \<Rightarrow> int list" where
  "payorMix tz date l rs =
     normalize (perturb payorWeight payorNames rs 43) (totalRevenue tz date l rs)"

text \<open>The values of \<^verbatim>\<open>expenseData\<close>, in the order in which its keys are created.\<close>

definition expenseData :: "int \<Rightarrow> jsdate \<Rightarrow> location \<Rightarrow> rng \<Rightarrow> int list" where
  "expenseData tz date l rs =
     (let t = real_of_int (totalRevenue tz date l rs)
      in [js_round (t * randomFloatBetween 0.18 0.22 (rs 13)),
          js_round (t * randomFloatBetween 0.06 0.10 (rs 14)),
          js_round (t * randomFloatBetween 0.05 0.08 (rs 15)),
          js_round (t * randomFloatBetween 0.01 0.02 (rs 16)),
          js_round (real_of_int (monthly_rent l) * randomFloatBetween 0.98 1.02 (rs 17)),
          js_round (t * randomFloatBetween 0.01 0.03 (rs 18)),
          js_round (t * randomFloatBetween 0.03 0.05 (rs 19)),
          js_round (t * randomFloatBetween 0.03 0.07 (rs 20)),
          js_round (t * randomFloatBetween 0.02 0.04 (rs 21)),
          js_round (t * randomFloatBetween 0.02 0.04 (rs 22)),
          js_round (t * randomFloatBetween 0.005 0.015 (rs 23)),
          js_round (t * randomFloatBetween 0.06 0.10 (rs 24)),
          js_round (t * randomFloatBetween 0.01 0.03 (rs 25)),
          js_round (t * randomFloatBetween 0.005 0.015 (rs 26)),
          js_round (t * randomFloatBetween 0.01 0.03 (rs 27))])"

definition totalExpenses :: "int \<Rightarrow> jsdate \<Rightarrow> location \<Rightarrow> rng \<Rightarrow> int" where
  "totalExpenses tz date l rs = sum_list (expenseData tz date l rs)"

definition numberOfProcedures :: "int \<Rightarrow> jsdate \<Rightarrow> location \<Rightarrow> rng \<Rightarrow> int" where
  "numberOfProcedures tz date l rs =
     js_round (real_of_int (totalRevenue tz date l rs)
                 / real_of_int (randomBetween 200 300 (rs 37)))"

definition patientVisits :: "int \<Rightarrow> jsdate \<Rightarrow> location \<Rightarrow> rng \<Rightarrow> int" where
  "patientVisits tz date l rs = js_round (real_of_int (numberOfProcedures tz date l rs) * 0.7)"

definition newPatients :: "int \<Rightarrow> jsdate \<Rightarrow> location \<Rightarrow> rng \<Rightarrow> int" where
  "newPatients tz date l rs =
     js_round (real_of_int (patientVisits tz date l rs) * randomFloatBetween 0.15 0.25 (rs 40))"

definition treatmentPlansPresented :: "int \<Rightarrow> jsdate \<Rightarrow> location \<Rightarrow> rng \<Rightarrow> int" where
  "treatmentPlansPresented tz date l rs =
     js_round (real_of_int (patientVisits tz date l rs) * randomFloatBetween 0.3 0.5 (rs 50))"

definition treatmentPlansAccepted :: "int \<Rightarrow> jsdate \<Rightarrow> location \<Rightarrow> rng \<Rightarrow> int" where
  "treatmentPlansAccepted tz date l rs =
     js_round (real_of_int (treatmentPlansPresented tz date l rs)
                 * randomFloatBetween 0.6 0.8 (rs 51))"

definition treatmentPlansCompleted :: "int \<Rightarrow> jsdate \<Rightarrow> location \<Rightarrow> rng \<Rightarrow> int" where
  "treatmentPlansCompleted tz date l rs =
     js_round (real_of_int (treatmentPlansAccepted tz date l rs)
                 * randomFloatBetween 0.7 0.9 (rs 52))"

text \<open>
  The record that \<^verbatim>\<open>generateMonthlyFinancialData\<close> returns. The columns on
  receivables, claims, collections, chair hours and the ratios derived from them are left
  out: nothing below reads them. Their draws are counted all the same.
\<close>

record fin_record =
  Location_ID :: string
  Location_Name :: string
  Date :: int
  Year :: int
  Month :: int
  Period :: string
  Total_Revenue :: int
  Revenue_Diagnostic :: int
  Revenue_Preventive :: int
  Revenue_Restorative :: int
  Revenue_Endodontic :: int
  Revenue_Periodontic :: int
  Revenue_Prosthodontic :: int
  Revenue_Oral_Surgery :: int
  Revenue_Orthodontic :: int
  Revenue_Implant :: int
  Revenue_Adjunctive :: int
  Total_Expenses :: int
  Labor_Clinical :: int
  Labor_Administrative :: int
  Supplies_Clinical :: int
  Supplies_Office :: int
  Rent_Lease :: int
  Utilities :: int
  Equipment_Costs :: int
  Marketing :: int
  Insurance :: int
  Professional_Fees :: int
  Continuing_Education :: int
  Lab_Fees :: int
  Software_IT :: int
  Travel :: int
  Miscellaneous :: int
  EBITDA :: int
  Total_Procedures :: int
  Total_Patient_Visits :: int
  New_Patients :: int
  Returning_Patients :: int
  Revenue_Per_Patient :: jsnum
  Payor_Delta_Dental :: int
  Payor_Cigna_Dental :: int
  Payor_Aetna :: int
  Payor_MetLife :: int
  Payor_Guardian :: int
  Payor_United_Healthcare :: int
  Payor_Self_Pay :: int
  Treatment_Plans_Presented :: int
  Treatment_Plans_Accepted :: int
  Treatment_Plans_Completed :: int
  Case_Acceptance_Rate :: jsnum
  Treatment_Completion_Rate :: jsnum
  Revenue_MoM_Change :: jsnum
  Revenue_YoY_Change :: jsnum
  EBITDA_MoM_Change :: jsnum
  EBITDA_YoY_Change :: jsnum





definition generateMonthlyFinancialData :: "int \<Rightarrow> jsdate \<Rightarrow> location \<Rightarrow> rng \<Rightarrow> fin_record" where
  "generateMonthlyFinancialData tz date l rs =
     (let formattedDate = formatDate tz date;
          year = getFullYear date;
          month = getMonth date + 1;
          serviceRevenue = serviceRevenue tz date l rs;
          expenseData = expenseData tz date l rs;
          payorMix = payorMix tz date l rs;
          totalRevenue = totalRevenue tz date l rs;
          totalExpenses = totalExpenses tz date l rs;
          patientVisits = patientVisits tz date l rs;
          newPatients = newPatients tz date l rs;
          treatmentPlansPresented = treatmentPlansPresented tz date l rs;
          treatmentPlansAccepted = treatmentPlansAccepted tz date l rs;
          treatmentPlansCompleted = treatmentPlansCompleted tz date l rs
      in \<lparr>Location_ID = loc_id l,
          Location_Name = loc_name l,
          Date = formattedDate,
          Year = year,
          Month = month,
          Period = String_num (nat year) @ ''-'' @ padStart 2 CHR ''0'' (String_num (nat month)),
          Total_Revenue = totalRevenue,
          Revenue_Diagnostic = serviceRevenue ! 0,
          Revenue_Preventive = serviceRevenue ! 1,
          Revenue_Restorative = serviceRevenue ! 2,
          Revenue_Endodontic = serviceRevenue ! 3,
          Revenue_Periodontic = serviceRevenue ! 4,
          Revenue_Prosthodontic = serviceRevenue ! 5,
          Revenue_Oral_Surgery = serviceRevenue ! 6,
          Revenue_Orthodontic = serviceRevenue ! 7,
          Revenue_Implant = serviceRevenue ! 8,
          Revenue_Adjunctive = serviceRevenue ! 9,
          Total_Expenses = totalExpenses,
          Labor_Clinical = expenseData ! 0,
          Labor_Administrative = expenseData ! 1,
          Supplies_Clinical = expenseData ! 2,
          Supplies_Office = expenseData ! 3,
          Rent_Lease = expenseData ! 4,
          Utilities = expenseData ! 5,
          Equipment_Costs = expenseData ! 6,
          Marketing = expenseData ! 7,
          Insurance = expenseData ! 8,
          Professional_Fees = expenseData ! 9,
          Continuing_Education = expenseData ! 10,
          Lab_Fees = expenseData ! 11,
          Software_IT = expenseData ! 12,
          Travel = expenseData ! 13,
          Miscellaneous = expenseData ! 14,
          EBITDA = totalRevenue - totalExpenses,
          Total_Procedures = numberOfProcedures tz date l rs,
          Total_Patient_Visits = patientVisits,
          New_Patients = newPatients,
          Returning_Patients = patientVisits - newPatients,
          Revenue_Per_Patient =
            toFixed 2 (js_div (real_of_int totalRevenue) (real_of_int patientVisits)),
          Payor_Delta_Dental = payorMix ! 0,
          Payor_Cigna_Dental = payorMix ! 1,
          Payor_Aetna = payorMix ! 2,
          Payor_MetLife = payorMix ! 3,
          Payor_Guardian = payorMix ! 4,
          Payor_United_Healthcare = payorMix ! 5,
          Payor_Self_Pay = payorMix ! 6,
          Treatment_Plans_Presented = treatmentPlansPresented,
          Treatment_Plans_Accepted = treatmentPlansAccepted,
          Treatment_Plans_Completed = treatmentPlansCompleted,
          Case_Acceptance_Rate =
            toFixed 4 (js_div (real_of_int treatmentPlansAccepted)
                         (real_of_int treatmentPlansPresented)),
          Treatment_Completion_Rate =
            toFixed 4 (js_div (real_of_int treatmentPlansCompleted)
                         (real_of_int treatmentPlansAccepted)),
          Revenue_MoM_Change = Number 0,
          Revenue_YoY_Change = Number 0,
          EBITDA_MoM_Change = Number 0,
          EBITDA_YoY_Change = Number 0\<rparr>)"

subsection \<open>The whole dataset\<close>

text \<open>
  The \<^verbatim>\<open>while\<close> loop over the months of one location. It returns the records it
  pushed and the random stream that is left.
\<close>

function month_loop :: "int \<Rightarrow> location \<Rightarrow> jsdate \<Rightarrow> rng \<Rightarrow> fin_record list \<times> rng" where
  "month_loop tz l currentDate rs =
     (if date_le currentDate END_DATE then
        (case month_loop tz l (setMonth currentDate (getMonth currentDate + 1)) (advance 53 rs)
         of (rest, rs') \<Rightarrow> (generateMonthlyFinancialData tz currentDate l rs # rest, rs'))
      else ([], rs))"
  by pat_completeness auto

definition month_index :: "jsdate \<Rightarrow> int" where
  "month_index d = getFullYear d * 12 + getMonth d"

termination month_loop
proof (relation "measure (\<lambda>(tz, l, d, rs).
          if date_le d END_DATE then Suc (nat (month_index END_DATE - month_index d)) else 0)",
       goal_cases)
  case 1
  show ?case by simp
next
  case (2 tz l d rs)
  let ?d' = "setMonth d (getMonth d + 1)"
  have inc: "month_index d < month_index ?d'"
    by (auto simp: month_index_def setMonth_def norm_month_def Let_def
          split: prod.splits if_splits)
  have rng: "0 \<le> getMonth ?d'" "getMonth ?d' < 12"
    by (auto simp: setMonth_def norm_month_def Let_def split: prod.splits if_splits)
  show ?case
  proof (cases "date_le ?d' END_DATE")
    case False
    with 2 show ?thesis by simp
  next
    case True
    with rng have "month_index ?d' \<le> month_index END_DATE"
      by (auto simp: date_le_def date_less_def month_index_def END_DATE_def Date_local_def)
    with inc 2 True show ?thesis by simp
  qed
qed

declare month_loop.simps [simp del]

text \<open>The \<^verbatim>\<open>for\<close> loop over the locations.\<close>

definition startDate_of :: "int \<Rightarrow> location \<Rightarrow> jsdate" where
  "startDate_of tz l =
     (let locationOpenDate = Date_parse tz (opened_date l);
          startDate = (if date_less START_DATE locationOpenDate then locationOpenDate
                       else START_DATE)
      in setDate1 startDate)"

fun location_loop :: "int \<Rightarrow> location list \<Rightarrow> rng \<Rightarrow> fin_record list \<times> rng" where
  "location_loop tz [] rs = ([], rs)"
| "location_loop tz (l # ls) rs =
     (case month_loop tz l (startDate_of tz l) rs of (recs, rs1) \<Rightarrow>
        (case location_loop tz ls rs1 of (rest, rs2) \<Rightarrow> (recs @ rest, rs2)))"

text \<open>
  \<^verbatim>\<open>Array.prototype.sort\<close> is stable; it is modelled by insertion sort with the
  comparator of the source. \<^verbatim>\<open>localeCompare\<close> on the location identifiers (capital
  letters and digits) is the order of their characters.
\<close>

definition localeCompare :: "string \<Rightarrow> string \<Rightarrow> int" where
  "localeCompare a b = (if a < b then - 1 else if b < a then 1 else 0)"

definition compare_records :: "fin_record \<Rightarrow> fin_record \<Rightarrow> int" where
  "compare_records a b =
     (if Location_ID a = Location_ID b then (Date a - Date b) * 86400000
      else localeCompare (Location_ID a) (Location_ID b))"

fun insert_sorted :: "('a \<Rightarrow> 'a \<Rightarrow> int) \<Rightarrow> 'a \<Rightarrow> 'a list \<Rightarrow> 'a list" where
  "insert_sorted cmp x [] = [x]"
| "insert_sorted cmp x (y # ys) =
     (if cmp x y \<le> 0 then x # y # ys else y # insert_sorted cmp x ys)"

definition js_sort :: "('a \<Rightarrow> 'a \<Rightarrow> int) \<Rightarrow> 'a list \<Rightarrow> 'a list" where
  "js_sort cmp xs = foldr (insert_sorted cmp) xs []"

subsection \<open>The comparative metrics pass\<close>

text \<open>The two predicates passed to \<^verbatim>\<open>financialData.find\<close>.\<close>

definition is_prev_month :: "fin_record \<Rightarrow> fin_record \<Rightarrow> bool" where
  "is_prev_month item current =
     (Location_ID item = Location_ID current \<and>
      Year item = (if Month current = 1 then Year current - 1 else Year current) \<and>
      Month item = (if Month current = 1 then 12 else Month current - 1))"

definition is_prev_year :: "fin_record \<Rightarrow> fin_record \<Rightarrow> bool" where
  "is_prev_year item current =
     (Location_ID item = Location_ID current \<and>
      Year item = Year current - 1 \<and>
      Month item = Month current)"

definition prevMonth_of :: "fin_record list \<Rightarrow> fin_record \<Rightarrow> fin_record option" where
  "prevMonth_of financialData current =
     find (\<lambda>item. is_prev_month item current) financialData"

definition prevYear_of :: "fin_record list \<Rightarrow> fin_record \<Rightarrow> fin_record option" where
  "prevYear_of financialData current =
     find (\<lambda>item. is_prev_year item current) financialData"

text \<open>\<^verbatim>\<open>((cur - prev) / prev).toFixed(4)\<close>.\<close>

definition change :: "int \<Rightarrow> int \<Rightarrow> jsnum" where
  "change cur prev = toFixed 4 (js_div (real_of_int (cur - prev)) (real_of_int prev))"

text \<open>
  One round of the loop: the record \<^verbatim>\<open>current\<close> after both \<^verbatim>\<open>if\<close> statements, and the
  array with that record at index \<open>i\<close>.
\<close>

definition with_changes :: "fin_record list \<Rightarrow> fin_record \<Rightarrow> fin_record" where
  "with_changes financialData current =
     (let prevMonth = prevMonth_of financialData current;
          prevYear = prevYear_of financialData current;
          current1 =
            (case prevMonth of
               Some p \<Rightarrow> current\<lparr>Revenue_MoM_Change := change (Total_Revenue current) (Total_Revenue p),
                                 EBITDA_MoM_Change := change (EBITDA current) (EBITDA p)\<rparr>
             | None \<Rightarrow> current);
          current2 =
            (case prevYear of
               Some p \<Rightarrow> current1\<lparr>Revenue_YoY_Change := change (Total_Revenue current) (Total_Revenue p),
                                  EBITDA_YoY_Change := change (EBITDA current) (EBITDA p)\<rparr>
             | None \<Rightarrow> current1)
      in current2)"

definition compare_step :: "fin_record list \<Rightarrow> nat \<Rightarrow> fin_record list" where
  "compare_step financialData i =
     financialData[i := with_changes financialData (financialData ! i)]"

function comparative_loop :: "nat \<Rightarrow> fin_record list \<Rightarrow> fin_record list" where
  "comparative_loop i financialData =
     (if i < length financialData
      then comparative_loop (i + 1) (compare_step financialData i)
      else financialData)"
  by pat_completeness auto

termination comparative_loop
  by (relation "measure (\<lambda>(i, fd). length fd - i)") (auto simp: compare_step_def Let_def)

declare comparative_loop.simps [simp del]

definition generateFinancialDataset :: "int \<Rightarrow> rng \<Rightarrow> fin_record list" where
  "generateFinancialDataset tz rs =
     (let financialData = fst (location_loop tz locations rs);
          sorted = js_sort compare_records financialData
      in comparative_loop 0 sorted)"

section \<open>The appointment generator (generate-pat-data.js)\<close>

subsection \<open>Instants\<close>

text \<open>
  This generator computes with \<^verbatim>\<open>getTime()\<close>, so here a \<^verbatim>\<open>Date\<close> is its instant:
  the number of milliseconds since 1970-01-01 UTC. The \<^verbatim>\<open>Date\<close> constructor cuts a
  fractional number of milliseconds off towards zero.
\<close>

definition ms_per_day :: int where
  "ms_per_day = 86400000"

text \<open>\<^verbatim>\<open>new Date('YYYY-MM-DD').getTime()\<close>: midnight UTC.\<close>

definition utc_midnight :: "ymd \<Rightarrow> int" where
  "utc_midnight s = day_of s * ms_per_day"

text \<open>\<^verbatim>\<open>new Date(year, month, day).getTime()\<close>: midnight local time.\<close>

definition local_midnight :: "int \<Rightarrow> ymd \<Rightarrow> int" where
  "local_midnight tz s = day_of s * ms_per_day - tz * 60000"

definition START_TIME :: "int \<Rightarrow> int" where
  "START_TIME tz = local_midnight tz (2020, 1, 1)"

definition END_TIME :: "int \<Rightarrow> int" where
  "END_TIME tz = local_midnight tz (2025, 4, 1)"

definition js_trunc :: "real \<Rightarrow> int" where
  "js_trunc x = (if 0 \<le> x then \<lfloor>x\<rfloor> else \<lceil>x\<rceil>)"

definition randomDate :: "int \<Rightarrow> int \<Rightarrow> real \<Rightarrow> int" where
  "randomDate start end u = js_trunc (real_of_int start + u * real_of_int (end - start))"

text \<open>\<^verbatim>\<open>formatDate\<close> of an instant: the number of its UTC day.\<close>

definition formatDate_ms :: "int \<Rightarrow> int" where
  "formatDate_ms t = t div ms_per_day"

text \<open>
  \<^verbatim>\<open>d.setDate(d.getDate() + n)\<close> moves the local calendar day by \<open>n\<close> and keeps the
  time of day; with a constant offset that is \<open>n\<close> whole days.
\<close>

definition addDays :: "int \<Rightarrow> int \<Rightarrow> int" where
  "addDays t n = t + n * ms_per_day"

subsection \<open>Reference data\<close>

definition NUM_RECORDS :: nat where
  "NUM_RECORDS = 250"

definition NUM_PATIENTS :: nat where
  "NUM_PATIENTS = 75"

text \<open>Identifier and name of each location and of each provider.\<close>

definition locations_pat :: "(string \<times> string) list" where
  "locations_pat =
     [(''LOC001'', ''Downtown Dental''), (''LOC002'', ''Westside Smile Center''),
      (''LOC003'', ''East Valley Dental Care'')]"

definition providers :: "(string \<times> string) list" where
  "providers =
     [(''DR001'', ''Dr. Sarah Johnson''), (''DR002'', ''Dr. Michael Chen''),
      (''DR003'', ''Dr. Robert Garcia''), (''DR004'', ''Dr. Emily Wilson''),
      (''DR005'', ''Dr. David Kim''), (''HYG001'', ''Lisa Martinez''),
      (''HYG002'', ''John Anderson''), (''HYG003'', ''Sophia Lee'')]"

record insurance_plan =
  plan_name :: string
  avg_reimbursement_rate :: real

definition insuranceProviders :: "insurance_plan list" where
  "insuranceProviders =
     [\<lparr>plan_name = ''Delta Dental'', avg_reimbursement_rate = 0.85\<rparr>,
      \<lparr>plan_name = ''Cigna Dental'', avg_reimbursement_rate = 0.80\<rparr>,
      \<lparr>plan_name = ''Aetna'', avg_reimbursement_rate = 0.75\<rparr>,
      \<lparr>plan_name = ''MetLife'', avg_reimbursement_rate = 0.82\<rparr>,
      \<lparr>plan_name = ''Guardian'', avg_reimbursement_rate = 0.78\<rparr>,
      \<lparr>plan_name = ''No Insurance'', avg_reimbursement_rate = 1.00\<rparr>]"

record procedure =
  code :: string
  description :: string
  category :: string
  avg_fee :: int
  duration :: int

definition mk_procedure :: "string \<Rightarrow> string \<Rightarrow> string \<Rightarrow> int \<Rightarrow> int \<Rightarrow> procedure" where
  "mk_procedure c d g f t =
     \<lparr>code = c, description = d, category = g, avg_fee = f, duration = t\<rparr>"

definition procedures :: "procedure list" where
  "procedures =
     [mk_procedure ''D0120'' ''Periodic Oral Evaluation'' ''Diagnostic'' 60 15,
      mk_procedure ''D0150'' ''Comprehensive Oral Evaluation'' ''Diagnostic'' 110 30,
      mk_procedure ''D0210'' ''Complete Series X-rays'' ''Diagnostic'' 150 30,
      mk_procedure ''D0220'' ''Periapical X-ray (First Film)'' ''Diagnostic'' 35 10,
      mk_procedure ''D0274'' ''Bitewing X-rays (Four Films)'' ''Diagnostic'' 70 15,
      mk_procedure ''D1110'' ''Prophylaxis (Cleaning) - Adult'' ''Preventive'' 110 45,
      mk_procedure ''D1120'' ''Prophylaxis (Cleaning) - Child'' ''Preventive'' 85 30,
      mk_procedure ''D1208'' ''Fluoride Treatment'' ''Preventive'' 45 15,
      mk_procedure ''D1351'' ''Sealant (Per Tooth)'' ''Preventive'' 60 20,
      mk_procedure ''D2140'' ''Amalgam Filling - One Surface'' ''Restorative'' 155 45,
      mk_procedure ''D2150'' ''Amalgam Filling - Two Surfaces'' ''Restorative'' 195 60,
      mk_procedure ''D2160'' ''Amalgam Filling - Three Surfaces'' ''Restorative'' 235 75,
      mk_procedure ''D2330'' ''Resin Filling - One Surface'' ''Restorative'' 175 45,
      mk_procedure ''D2331'' ''Resin Filling - Two Surfaces'' ''Restorative'' 215 60,
      mk_procedure ''D2332'' ''Resin Filling - Three Surfaces'' ''Restorative'' 255 75,
      mk_procedure ''D2740'' ''Crown - Porcelain/Ceramic'' ''Restorative'' 1250 90,
      mk_procedure ''D2750'' ''Crown - Porcelain Fused to Metal'' ''Restorative'' 1150 90,
      mk_procedure ''D3310'' ''Root Canal - Anterior'' ''Endodontic'' 825 90,
      mk_procedure ''D3320'' ''Root Canal - Bicuspid'' ''Endodontic'' 950 105,
      mk_procedure ''D3330'' ''Root Canal - Molar'' ''Endodontic'' 1150 120,
      mk_procedure ''D4341'' ''Periodontal Scaling & Root Planing (Per Quadrant)'' ''Periodontic'' 275 60,
      mk_procedure ''D4910'' ''Periodontal Maintenance'' ''Periodontic'' 135 45,
      mk_procedure ''D5110'' ''Complete Denture - Maxillary'' ''Prosthodontic'' 1850 90,
      mk_procedure ''D5120'' ''Complete Denture - Mandibular'' ''Prosthodontic'' 1850 90,
      mk_procedure ''D5213'' ''Partial Denture - Maxillary'' ''Prosthodontic'' 1650 90,
      mk_procedure ''D5214'' ''Partial Denture - Mandibular'' ''Prosthodontic'' 1650 90,
      mk_procedure ''D6010'' ''Surgical Implant Placement'' ''Implant'' 2100 120,
      mk_procedure ''D6056'' ''Implant Abutment'' ''Implant'' 650 60,
      mk_procedure ''D6058'' ''Implant Crown'' ''Implant'' 1550 90,
      mk_procedure ''D8080'' ''Comprehensive Orthodontic Treatment - Adolescent'' ''Orthodontic'' 5500 120,
      mk_procedure ''D8090'' ''Comprehensive Orthodontic Treatment - Adult'' ''Orthodontic'' 6200 120,
      mk_procedure ''D9110'' ''Palliative Treatment (Emergency)'' ''Adjunctive'' 125 30,
      mk_procedure ''D9215'' ''Local Anesthesia'' ''Adjunctive'' 45 10,
      mk_procedure ''D9310'' ''Consultation'' ''Adjunctive'' 95 45]"

text \<open>The tooth identifiers: the numbers 1 to 32, written out as strings.\<close>

definition teeth :: "string list" where
  "teeth = map String_num [1..<33]"

definition appointmentStatuses :: "string list" where
  "appointmentStatuses = [''Completed'', ''No-Show'', ''Canceled'', ''Rescheduled'']"

definition statusProbabilities :: "real list" where
  "statusProbabilities = [0.85, 0.05, 0.07, 0.03]"

definition paymentMethods :: "string list" where
  "paymentMethods = [''Credit Card'', ''Debit Card'', ''Cash'', ''Check'', ''Insurance Only'']"

subsection \<open>Patients\<close>

text \<open>
  Of a patient the model keeps what the appointment generator reads. Name, gender and
  zip code are left out; the draws that choose them are counted.
\<close>

record patient =
  patient_id :: string
  age :: int
  registration_date :: ymd
  insurance_provider :: string
  is_active :: bool

text \<open>
  One round of the loop of \<^verbatim>\<open>generatePatients\<close>. Its draws, in order: gender, first
  name, last name, age, insured or not, the plan (only when insured), year, month and
  day of registration, zip code, active or not.
\<close>

definition generatePatient :: "nat \<Rightarrow> rng \<Rightarrow> patient \<times> rng" where
  "generatePatient i rs =
     (let age = randomBetween 18 85 (rs 3);
          hasInsurance = (rs 4 < 0.8);
          insuranceProvider =
            (if hasInsurance
             then plan_name (insuranceProviders !
                    nat \<lfloor>rs 5 * real_of_int (int (length insuranceProviders) - 1)\<rfloor>)
             else ''No Insurance'');
          rs1 = advance (if hasInsurance then 6 else 5) rs;
          regYear = randomBetween 2018 2024 (rs1 0);
          regMonth = randomBetween 1 12 (rs1 1);
          regDay = randomBetween 1 28 (rs1 2)
      in (\<lparr>patient_id = ''PAT'' @ padStart 4 CHR ''0'' (String_num i),
           age = age,
           registration_date = (regYear, regMonth, regDay),
           insurance_provider = insuranceProvider,
           is_active = (rs1 4 < 0.9)\<rparr>,
          advance 5 rs1))"

fun patients_loop :: "nat list \<Rightarrow> rng \<Rightarrow> patient list \<times> rng" where
  "patients_loop [] rs = ([], rs)"
| "patients_loop (i # is) rs =
     (case generatePatient i rs of (p, rs1) \<Rightarrow>
        (case patients_loop is rs1 of (ps, rs2) \<Rightarrow> (p # ps, rs2)))"

definition generatePatients :: "rng \<Rightarrow> patient list \<times> rng" where
  "generatePatients rs = patients_loop [1..<Suc NUM_PATIENTS] rs"

subsection \<open>Appointment rows\<close>

text \<open>
  A row of the appointment table. A column that holds a printed date or nothing holds
  \<open>Some\<close> day number or \<open>None\<close> for the empty string. The columns that copy the
  patient's name, gender, age and zip code, the provider's role and specialty, the
  location's rating, and the local year and month of the visit are left out.
\<close>

record appointment =
  Visit_ID :: string
  Procedure_ID :: string
  Patient_ID :: string
  Visit_Location_ID :: string
  Visit_Location_Name :: string
  Provider_ID :: string
  Provider_Name :: string
  Date_of_Service :: int
  Appointment_Status :: string
  Procedure_Code :: string
  Procedure_Description :: string
  Procedure_Category :: string
  Tooth_Number :: string
  Charged_Amount :: int
  Insurance_Provider :: string
  Insurance_Covered_Amount :: int
  Patient_Responsibility :: int
  Discount_Applied :: int
  Out_of_Pocket :: int
  Amount_Paid :: int
  Payment_Method :: string
  Payment_Status :: string
  Is_New_Patient :: bool
  Insurance_Claim_Status :: string
  Insurance_Claim_Submission_Date :: "int option"
  Insurance_Claim_Payment_Date :: "int option"
  Treatment_Plan_ID :: string
  Treatment_Plan_Creation_Date :: "int option"
  Treatment_Plan_Completion_Date :: "int option"
  Treatment_Plan_Completion_Rate :: int
  Estimated_Total_Cost :: int

text \<open>What one round of the loop over the visits has fixed before it reaches the procedures.\<close>

record visit =
  visitId :: string
  the_patient :: patient
  the_location :: "string \<times> string"
  the_provider :: "string \<times> string"
  visitDate :: int
  appointmentStatus :: string

definition formattedVisitDate :: "visit \<Rightarrow> int" where
  "formattedVisitDate v = formatDate_ms (visitDate v)"

definition isNewPatient :: "visit \<Rightarrow> bool" where
  "isNewPatient v =
     (formatDate_ms (utc_midnight (registration_date (the_patient v))) = formattedVisitDate v)"

text \<open>The financial chain of a completed procedure.\<close>

definition chargedAmount_of :: "procedure \<Rightarrow> real \<Rightarrow> int" where
  "chargedAmount_of pr u = js_round (real_of_int (avg_fee pr) * (0.9 + u * 0.2))"

text \<open>
  \<^verbatim>\<open>provider ? provider.avg_reimbursement_rate : 0.75\<close>, where \<^verbatim>\<open>provider\<close> is what
  \<^verbatim>\<open>insuranceProviders.find\<close> returned for the patient's plan name.
\<close>

definition baseCoverageRate :: "string \<Rightarrow> real" where
  "baseCoverageRate name =
     (case find (\<lambda>p. plan_name p = name) insuranceProviders of
        Some provider \<Rightarrow> avg_reimbursement_rate provider
      | None \<Rightarrow> 0.75)"

definition coverageRate_of :: "string \<Rightarrow> real \<Rightarrow> real" where
  "coverageRate_of name u = max 0.5 (min 0.95 (baseCoverageRate name * (0.9 + u * 0.2)))"

definition insuranceCovered_of :: "int \<Rightarrow> string \<Rightarrow> real \<Rightarrow> int" where
  "insuranceCovered_of chargedAmount name u =
     js_round (real_of_int chargedAmount * coverageRate_of name u)"

text \<open>
  The branch for a completed appointment. The stream is threaded through the draws in
  the order of the source: fee, coverage (only when insured), discount or not, its rate
  (only with a discount), paid or not, the payment method (only when paid), the tooth
  (only for the four categories), treatment plan or not and its five draws, the claim
  status (one or two draws, only when insured), the day of payment (only for a paid claim).
\<close>

definition completed_row :: "visit \<Rightarrow> procedure \<Rightarrow> string \<Rightarrow> rng \<Rightarrow> appointment \<times> rng" where
  "completed_row v pr procedureId rs =
     (let chargedAmount = chargedAmount_of pr (rs 0);
          hasInsurance = (insurance_provider (the_patient v) \<noteq> ''No Insurance'');
          insuranceCovered =
            (if hasInsurance
             then insuranceCovered_of chargedAmount (insurance_provider (the_patient v)) (rs 1)
             else 0);
          rs1 = advance (if hasInsurance then 2 else 1) rs;
          patientResponsibility = chargedAmount - insuranceCovered;
          hasDiscount = (rs1 0 < 0.15);
          discountRate = (if hasDiscount then real_of_int (randomBetween 1 3 (rs1 1)) / 10 else 0);
          rs2 = advance (if hasDiscount then 2 else 1) rs1;
          discountAmount = js_round (real_of_int patientResponsibility * discountRate);
          outOfPocket = patientResponsibility - discountAmount;
          isPaid = (rs2 0 < 0.95);
          amountPaid = (if isPaid then outOfPocket else 0);
          paymentMethod =
            (if isPaid
             then paymentMethods ! nat \<lfloor>rs2 1 * real (length paymentMethods)\<rfloor>
             else []);
          rs3 = advance (if isPaid then 2 else 1) rs2;
          needsTooth =
            (category pr \<in> set [''Restorative'', ''Endodontic'', ''Periodontic'', ''Implant'']);
          toothNumber =
            (if needsTooth then teeth ! nat \<lfloor>rs3 0 * real (length teeth)\<rfloor> else []);
          rs4 = advance (if needsTooth then 1 else 0) rs3;
          hasTreatmentPlan = (rs4 0 < 0.3);
          isCompleted = (rs4 3 < 0.6);
          treatmentPlanId =
            (if hasTreatmentPlan
             then ''TP'' @ padStart 4 CHR ''0'' (String_num (nat \<lfloor>rs4 1 * 10000\<rfloor>))
             else []);
          treatmentPlanCreationDate =
            (if hasTreatmentPlan
             then Some (formatDate_ms (addDays (visitDate v) (- randomBetween 0 90 (rs4 2))))
             else None);
          treatmentPlanCompletionDate =
            (if hasTreatmentPlan \<and> isCompleted
             then Some (formatDate_ms (addDays (visitDate v) (randomBetween 0 180 (rs4 4))))
             else None);
          treatmentPlanCompletionRate =
            (if hasTreatmentPlan
             then (if isCompleted then 100 else randomBetween 10 90 (rs4 4))
             else 0);
          estimatedTotalCost =
            (if hasTreatmentPlan then js_round (real_of_int chargedAmount * (1 + rs4 5))
             else chargedAmount);
          rs5 = advance (if hasTreatmentPlan then 6 else 1) rs4;
          claimStatus =
            (if hasInsurance
             then (if rs5 0 < 0.95 then ''Paid''
                   else (if rs5 1 < 0.5 then ''Pending'' else ''Denied''))
             else []);
          rs6 = advance (if hasInsurance then (if rs5 0 < 0.95 then 1 else 2) else 0) rs5;
          claimSubmissionDate = (if hasInsurance then Some (formattedVisitDate v) else None);
          claimPaymentDate =
            (if claimStatus = ''Paid''
             then Some (formatDate_ms (addDays (visitDate v) (randomBetween 15 45 (rs6 0))))
             else None);
          rs7 = advance (if claimStatus = ''Paid'' then 1 else 0) rs6
      in (\<lparr>Visit_ID = visitId v,
           Procedure_ID = procedureId,
           Patient_ID = patient_id (the_patient v),
           Visit_Location_ID = fst (the_location v),
           Visit_Location_Name = snd (the_location v),
           Provider_ID = fst (the_provider v),
           Provider_Name = snd (the_provider v),
           Date_of_Service = formattedVisitDate v,
           Appointment_Status = appointmentStatus v,
           Procedure_Code = code pr,
           Procedure_Description = description pr,
           Procedure_Category = category pr,
           Tooth_Number = toothNumber,
           Charged_Amount = chargedAmount,
           Insurance_Provider = insurance_provider (the_patient v),
           Insurance_Covered_Amount = insuranceCovered,
           Patient_Responsibility = patientResponsibility,
           Discount_Applied = discountAmount,
           Out_of_Pocket = outOfPocket,
           Amount_Paid = amountPaid,
           Payment_Method = paymentMethod,
           Payment_Status = (if isPaid then ''Paid'' else ''Outstanding''),
           Is_New_Patient = isNewPatient v,
           Insurance_Claim_Status = claimStatus,
           Insurance_Claim_Submission_Date = claimSubmissionDate,
           Insurance_Claim_Payment_Date = claimPaymentDate,
           Treatment_Plan_ID = treatmentPlanId,
           Treatment_Plan_Creation_Date = treatmentPlanCreationDate,
           Treatment_Plan_Completion_Date = treatmentPlanCompletionDate,
           Treatment_Plan_Completion_Rate = treatmentPlanCompletionRate,
           Estimated_Total_Cost = estimatedTotalCost\<rparr>,
          rs7))"

text \<open>
  The branch for an appointment that was not completed; it draws nothing. The empty
  string is the empty list of characters.
\<close>

definition blank_row :: "visit \<Rightarrow> string \<Rightarrow> appointment" where
  "blank_row v procedureId =
     \<lparr>Visit_ID = visitId v,
      Procedure_ID = procedureId,
      Patient_ID = patient_id (the_patient v),
      Visit_Location_ID = fst (the_location v),
      Visit_Location_Name = snd (the_location v),
      Provider_ID = fst (the_provider v),
      Provider_Name = snd (the_provider v),
      Date_of_Service = formattedVisitDate v,
      Appointment_Status = appointmentStatus v,
      Procedure_Code = [],
      Procedure_Description = [],
      Procedure_Category = [],
      Tooth_Number = [],
      Charged_Amount = 0,
      Insurance_Provider = insurance_provider (the_patient v),
      Insurance_Covered_Amount = 0,
      Patient_Responsibility = 0,
      Discount_Applied = 0,
      Out_of_Pocket = 0,
      Amount_Paid = 0,
      Payment_Method = [],
      Payment_Status = [],
      Is_New_Patient = isNewPatient v,
      Insurance_Claim_Status = [],
      Insurance_Claim_Submission_Date = None,
      Insurance_Claim_Payment_Date = None,
      Treatment_Plan_ID = [],
      Treatment_Plan_Creation_Date = None,
      Treatment_Plan_Completion_Date = None,
      Treatment_Plan_Completion_Rate = 0,
      Estimated_Total_Cost = 0\<rparr>"

text \<open>
  One round of the loop over the procedures of visit \<open>i\<close>: two draws choose the
  procedure, then the row is built.
\<close>

definition procedure_row :: "visit \<Rightarrow> nat \<Rightarrow> nat \<Rightarrow> rng \<Rightarrow> appointment \<times> rng" where
  "procedure_row v i p rs =
     (let procedureIndex =
            (if rs 0 < 0.6 then \<lfloor>rs 1 * 10\<rfloor>
             else \<lfloor>rs 1 * real (length procedures)\<rfloor>);
          pr = procedures ! nat procedureIndex;
          procedureId = ''PROC'' @ padStart 6 CHR ''0'' (String_num (i * 10 + p + 1))
      in if appointmentStatus v = ''Completed''
         then completed_row v pr procedureId (advance 2 rs)
         else (blank_row v procedureId, advance 2 rs))"

fun procedure_loop :: "visit \<Rightarrow> nat \<Rightarrow> nat list \<Rightarrow> rng \<Rightarrow> appointment list \<times> rng" where
  "procedure_loop v i [] rs = ([], rs)"
| "procedure_loop v i (p # ps) rs =
     (case procedure_row v i p rs of (row, rs1) \<Rightarrow>
        (case procedure_loop v i ps rs1 of (rows, rs2) \<Rightarrow> (row # rows, rs2)))"

text \<open>
  The loop that picks the status: the first index whose cumulative probability reaches
  \<^verbatim>\<open>statusRand\<close>, and index 0 when none does.
\<close>

fun pick_status :: "real \<Rightarrow> real \<Rightarrow> nat \<Rightarrow> real list \<Rightarrow> nat" where
  "pick_status statusRand cumulativeProb j [] = 0"
| "pick_status statusRand cumulativeProb j (q # qs) =
     (if statusRand \<le> cumulativeProb + q then j
      else pick_status statusRand (cumulativeProb + q) (Suc j) qs)"

text \<open>
  One round of the loop over the visits, in two parts. The first part fixes the visit of
  the chosen patient: draw 1 is the date, draws 2 and 3 the location and the provider,
  draw 4 the status (draw 0 chose the patient, draw 5 is the number of procedures).
\<close>

definition make_visit :: "int \<Rightarrow> patient \<Rightarrow> nat \<Rightarrow> rng \<Rightarrow> visit" where
  "make_visit tz patient i rs =
     (let regDate = utc_midnight (registration_date patient);
          visitDate =
            randomDate (if regDate > START_TIME tz then regDate else START_TIME tz)
              (END_TIME tz) (rs 1);
          location = locations_pat ! nat \<lfloor>rs 2 * real (length locations_pat)\<rfloor>;
          provider = providers ! nat \<lfloor>rs 3 * real (length providers)\<rfloor>;
          statusIndex = pick_status (rs 4) 0 0 statusProbabilities
      in \<lparr>visitId = ''V'' @ padStart 6 CHR ''0'' (String_num (i + 1)),
          the_patient = patient,
          the_location = location,
          the_provider = provider,
          visitDate = visitDate,
          appointmentStatus = appointmentStatuses ! statusIndex\<rparr>)"

text \<open>
  \<^verbatim>\<open>patients[patientIndex]\<close> is \<^verbatim>\<open>undefined\<close> when the index is outside the array, and
  reading its registration date then throws a \<^verbatim>\<open>TypeError\<close>: the result \<open>None\<close>. The
  indices into the fixed tables are in range for every draw in \<open>[0, 1)\<close>.
\<close>

definition patientIndex_of :: "patient list \<Rightarrow> rng \<Rightarrow> int" where
  "patientIndex_of patients rs = \<lfloor>(rs 0) powr 1.5 * real (length patients)\<rfloor>"

definition generateVisit :: "int \<Rightarrow> patient list \<Rightarrow> nat \<Rightarrow> rng \<Rightarrow> (appointment list \<times> rng) option" where
  "generateVisit tz patients i rs =
     (let patientIndex = patientIndex_of patients rs
      in if 0 \<le> patientIndex \<and> patientIndex < int (length patients) then
           (let patient = patients ! nat patientIndex;
                v = make_visit tz patient i rs;
                numProceduresForVisit = randomBetween 1 3 (rs 5)
            in Some (procedure_loop v i [0..<nat numProceduresForVisit] (advance 6 rs)))
         else None)"

fun visit_loop :: "int \<Rightarrow> patient list \<Rightarrow> nat list \<Rightarrow> rng \<Rightarrow> appointment list option" where
  "visit_loop tz patients [] rs = Some []"
| "visit_loop tz patients (i # is) rs =
     (case generateVisit tz patients i rs of
        None \<Rightarrow> None
      | Some (rows, rs1) \<Rightarrow>
          (case visit_loop tz patients is rs1 of
             None \<Rightarrow> None
           | Some rest \<Rightarrow> Some (rows @ rest)))"

definition compare_appointments :: "appointment \<Rightarrow> appointment \<Rightarrow> int" where
  "compare_appointments a b = (Date_of_Service a - Date_of_Service b) * ms_per_day"

definition generateAppointmentData :: "int \<Rightarrow> patient list \<Rightarrow> rng \<Rightarrow> appointment list option" where
  "generateAppointmentData tz patients rs =
     map_option (js_sort compare_appointments) (visit_loop tz patients [0..<NUM_RECORDS] rs)"

text \<open>The script: the patients first, then their appointments, from one stream of draws.\<close>

definition appointments_run :: "int \<Rightarrow> rng \<Rightarrow> appointment list option" where
  "appointments_run tz rs =
     (case generatePatients rs of (patients, rs1) \<Rightarrow> generateAppointmentData tz patients rs1)"

section \<open>The months the specification asks for\<close>




section \<open>The shape of the monthly dataset\<close>

text \<open>
  Names for what the loops of \<^verbatim>\<open>generateFinancialDataset\<close> are shown to produce:
  \<open>month_date k\<close> is local midnight of the first day of the \<open>k\<close>-th month counted
  from January 2020, and \<open>location_months tz l rs\<close> is the list of the 64 records of
  location \<open>l\<close>, each built from the next 53 draws of \<open>rs\<close>.
\<close>

definition month_date :: "nat \<Rightarrow> jsdate" where
  "month_date k = Date_local (2020 + int (k div 12)) (int (k mod 12)) 1"

definition location_months :: "int \<Rightarrow> location \<Rightarrow> rng \<Rightarrow> fin_record list" where
  "location_months tz l rs =
     map (\<lambda>j. generateMonthlyFinancialData tz (month_date j) l (advance (53 * j) rs)) [0..<64]"

text \<open>The records in the order in which the two loops push them.\<close>

definition unsorted_dataset :: "int \<Rightarrow> rng \<Rightarrow> fin_record list" where
  "unsorted_dataset tz rs =
     location_months tz LOC001 rs @ location_months tz LOC002 (advance 3392 rs)
       @ location_months tz LOC003 (advance 6784 rs)"

definition first_day :: "nat \<Rightarrow> int" where
  "first_day k = days_from_civil (2020 + int (k div 12)) (int (k mod 12) + 1) 1"

text \<open>
  The comparative pass reads of another record only its location, year, month, total
  revenue and EBITDA (\<open>same_core\<close>), and what it writes depends only on the revenue
  and EBITDA of the records it found (\<open>amounts\<close>, \<open>set_changes\<close>).
\<close>

definition same_core :: "fin_record \<Rightarrow> fin_record \<Rightarrow> bool" where
  "same_core a b \<longleftrightarrow>
     Location_ID a = Location_ID b \<and> Year a = Year b \<and> Month a = Month b \<and>
     Total_Revenue a = Total_Revenue b \<and> EBITDA a = EBITDA b"

definition amounts :: "fin_record option \<Rightarrow> (int \<times> int) option" where
  "amounts = map_option (\<lambda>p. (Total_Revenue p, EBITDA p))"

definition set_changes :: "(int \<times> int) option \<Rightarrow> (int \<times> int) option \<Rightarrow> fin_record \<Rightarrow> fin_record" where
  "set_changes m y c =
     (case y of
        Some (t, e) \<Rightarrow>
          (case m of
             Some (t', e') \<Rightarrow> c\<lparr>Revenue_MoM_Change := change (Total_Revenue c) t',
                                EBITDA_MoM_Change := change (EBITDA c) e'\<rparr>
           | None \<Rightarrow> c)
          \<lparr>Revenue_YoY_Change := change (Total_Revenue c) t,
           EBITDA_YoY_Change := change (EBITDA c) e\<rparr>
      | None \<Rightarrow>
          (case m of
             Some (t', e') \<Rightarrow> c\<lparr>Revenue_MoM_Change := change (Total_Revenue c) t',
                                EBITDA_MoM_Change := change (EBITDA c) e'\<rparr>
           | None \<Rightarrow> c))"

section \<open>Sample inputs\<close>

text \<open>
  Concrete inputs on which the theorems below are instantiated: a patient, the stream
  of draws that begins with the given numbers and continues with zeros, and the stream
  whose every draw is the same number.
\<close>

definition sample_patient :: patient where
  "sample_patient = \<lparr>patient_id = ''PAT0001'', age = 40, registration_date = (2018, 1, 1),
     insurance_provider = ''Delta Dental'', is_active = True\<rparr>"

definition draws_from :: "real list \<Rightarrow> rng" where
  "draws_from xs n = (if n < length xs then xs ! n else 0)"



section \<open>Properties of the appointment generator\<close>

subsection \<open>Rounding and draws\<close>

lemma unit_draws_advance: "unit_draws rs \<Longrightarrow> unit_draws (advance k rs)"
  by (simp add: unit_draws_def advance_def)

lemma advance_advance: "advance j (advance k rs) = advance (j + k) rs"
  by (simp add: advance_def fun_eq_iff add.assoc)

lemma advance_0: "advance 0 rs = rs"
  by (simp add: advance_def)

lemma unit_drawsD: "unit_draws rs \<Longrightarrow> 0 \<le> rs n" "unit_draws rs \<Longrightarrow> rs n < 1"
  by (simp_all add: unit_draws_def)

lemma js_round_upper: "real_of_int (js_round x) \<le> x + 1 / 2"
  by (simp add: js_round_def)

lemma js_round_lower: "x - 1 / 2 < real_of_int (js_round x)"
  unfolding js_round_def by linarith

lemma js_round_mono: "x \<le> y \<Longrightarrow> js_round x \<le> js_round y"
  by (simp add: js_round_def floor_mono)

lemma js_round_of_int: "js_round (real_of_int n) = n"
  unfolding js_round_def by linarith

lemma completed_row_fields:
  "Appointment_Status (fst (completed_row v pr pid rs)) = appointmentStatus v"
  "Charged_Amount (fst (completed_row v pr pid rs)) = chargedAmount_of pr (rs 0)"
  "Insurance_Provider (fst (completed_row v pr pid rs)) = insurance_provider (the_patient v)"
  "Insurance_Covered_Amount (fst (completed_row v pr pid rs)) =
     (if insurance_provider (the_patient v) \<noteq> ''No Insurance''
      then insuranceCovered_of (chargedAmount_of pr (rs 0)) (insurance_provider (the_patient v)) (rs 1)
      else 0)"
  "Patient_Responsibility (fst (completed_row v pr pid rs)) =
     Charged_Amount (fst (completed_row v pr pid rs)) - Insurance_Covered_Amount (fst (completed_row v pr pid rs))"
  "Out_of_Pocket (fst (completed_row v pr pid rs)) =
     Patient_Responsibility (fst (completed_row v pr pid rs)) - Discount_Applied (fst (completed_row v pr pid rs))"
  "Date_of_Service (fst (completed_row v pr pid rs)) = formattedVisitDate v"
  "Is_New_Patient (fst (completed_row v pr pid rs)) = isNewPatient v"
  "Patient_ID (fst (completed_row v pr pid rs)) = patient_id (the_patient v)"
  by (simp_all add: completed_row_def Let_def)

lemma completed_row_draws: "unit_draws rs \<Longrightarrow> unit_draws (snd (completed_row v pr pid rs))"
  by (simp add: completed_row_def Let_def unit_draws_advance)


lemma procedure_row_draws: "unit_draws rs \<Longrightarrow> unit_draws (snd (procedure_row v i p rs))"
  by (simp add: procedure_row_def Let_def unit_draws_advance completed_row_draws)

lemma procedure_loop_rows:
  "procedure_loop v i ps rs = (rows, rs') \<Longrightarrow> unit_draws rs \<Longrightarrow>
     unit_draws rs' \<and>
     (\<forall>r\<in>set rows. \<exists>p rs''. unit_draws rs'' \<and> r = fst (procedure_row v i p rs''))"
proof (induction ps arbitrary: rs rows rs')
  case Nil
  then show ?case by simp
next
  case (Cons p ps)
  obtain row rs1 where row: "procedure_row v i p rs = (row, rs1)"
    by (cases "procedure_row v i p rs")
  obtain rest rs2 where rest: "procedure_loop v i ps rs1 = (rest, rs2)"
    by (cases "procedure_loop v i ps rs1")
  from row Cons.prems(2) have u1: "unit_draws rs1"
    using procedure_row_draws [of rs v i p] by simp
  from Cons.IH [OF rest u1] have ih: "unit_draws rs2"
    "\<forall>r\<in>set rest. \<exists>p rs''. unit_draws rs'' \<and> r = fst (procedure_row v i p rs'')"
    by simp_all
  from Cons.prems(1) row rest have eq: "rows = row # rest" "rs' = rs2" by simp_all
  have "\<exists>p rs''. unit_draws rs'' \<and> row = fst (procedure_row v i p rs'')"
    using row Cons.prems(2) by (intro exI [of _ p] exI [of _ rs]) simp
  with ih eq show ?case by simp
qed

lemma pick_status_range: "pick_status u 0 0 statusProbabilities < 4"
  by (simp add: statusProbabilities_def)

lemma status_in_table:
  "appointmentStatuses ! pick_status u 0 0 statusProbabilities \<in> set appointmentStatuses"
  by (simp add: appointmentStatuses_def statusProbabilities_def)

lemma make_visit_fields:
  "the_patient (make_visit tz pt i rs) = pt"
  "appointmentStatus (make_visit tz pt i rs) = appointmentStatuses ! pick_status (rs 4) 0 0 statusProbabilities"
  "visitDate (make_visit tz pt i rs) =
     randomDate (if utc_midnight (registration_date pt) > START_TIME tz
                 then utc_midnight (registration_date pt) else START_TIME tz)
       (END_TIME tz) (rs 1)"
  unfolding make_visit_def Let_def by simp_all

lemma generateVisit_rows:
  assumes "generateVisit tz patients i rs = Some (rows, rs')" and "unit_draws rs"
  shows "unit_draws rs'"
    and "r \<in> set rows \<Longrightarrow>
           \<exists>pt p rs''. r = fst (procedure_row (make_visit tz pt i rs) i p rs'') \<and>
             unit_draws rs'' \<and> pt \<in> set patients"
proof -
  let ?idx = "patientIndex_of patients rs"
  from assms(1) have inr: "0 \<le> ?idx" "?idx < int (length patients)"
    by (auto simp: generateVisit_def Let_def split: if_splits)
  define pt where "pt = patients ! nat ?idx"
  from assms(1) inr have loop:
    "procedure_loop (make_visit tz pt i rs) i [0..<nat (randomBetween 1 3 (rs 5))] (advance 6 rs)
       = (rows, rs')"
    unfolding generateVisit_def Let_def pt_def by simp
  from procedure_loop_rows [OF loop unit_draws_advance [OF assms(2)]]
  have res: "unit_draws rs'"
    "\<forall>r\<in>set rows. \<exists>p rs''. unit_draws rs'' \<and> r = fst (procedure_row (make_visit tz pt i rs) i p rs'')"
    by simp_all
  show "unit_draws rs'" by (rule res(1))
  have pin: "pt \<in> set patients"
  proof -
    from inr have "nat ?idx < length patients" by linarith
    then show ?thesis unfolding pt_def by (rule nth_mem)
  qed
  show "\<exists>pt p rs''. r = fst (procedure_row (make_visit tz pt i rs) i p rs'') \<and>
             unit_draws rs'' \<and> pt \<in> set patients" if "r \<in> set rows"
    using res(2) that pin by blast
qed

lemma set_insert_sorted: "set (insert_sorted cmp x xs) = insert x (set xs)"
  by (induction xs) auto

lemma set_js_sort: "set (js_sort cmp xs) = set xs"
  by (induction xs) (simp_all add: js_sort_def set_insert_sorted)

lemma length_insert_sorted: "length (insert_sorted cmp x xs) = Suc (length xs)"
  by (induction xs) auto

lemma length_js_sort: "length (js_sort cmp xs) = length xs"
  by (induction xs) (simp_all add: js_sort_def length_insert_sorted)

lemma patient_index_range:
  assumes "0 \<le> u" "u < 1" "0 < n"
  shows "0 \<le> \<lfloor>u powr 1.5 * real n\<rfloor>" "\<lfloor>u powr 1.5 * real n\<rfloor> < int n"
proof -
  have p0: "0 \<le> u powr 1.5" by (rule powr_ge_zero)
  have p1: "u powr 1.5 < 1"
  proof (cases "u = 0")
    case True
    then show ?thesis by simp
  next
    case False
    with assms have "0 < u" by simp
    with assms(2) show ?thesis by (simp add: powr01_less_one)
  qed
  from p0 show "0 \<le> \<lfloor>u powr 1.5 * real n\<rfloor>" by simp
  from p1 assms(3) have "u powr 1.5 * real n < real n" by simp
  then show "\<lfloor>u powr 1.5 * real n\<rfloor> < int n" by (simp add: floor_less_iff)
qed

lemma generateVisit_total:
  assumes "unit_draws rs" "patients \<noteq> []"
  shows "\<exists>rows rs'. generateVisit tz patients i rs = Some (rows, rs')"
proof -
  from assms(2) have "0 < length patients" by simp
  from patient_index_range [OF unit_drawsD [OF assms(1), of 0] this]
  show ?thesis
    by (simp add: generateVisit_def patientIndex_of_def Let_def split del: if_split)
qed

lemma visit_loop_total:
  "unit_draws rs \<Longrightarrow> patients \<noteq> [] \<Longrightarrow> \<exists>rows. visit_loop tz patients is rs = Some rows"
proof (induction "is" arbitrary: rs)
  case Nil
  then show ?case by simp
next
  case (Cons i "is")
  from generateVisit_total [OF Cons.prems] obtain rows rs'
    where gv: "generateVisit tz patients i rs = Some (rows, rs')" by blast
  from generateVisit_rows(1) [OF gv Cons.prems(1)] have "unit_draws rs'" .
  from Cons.IH [OF this Cons.prems(2)] obtain rest
    where "visit_loop tz patients is rs' = Some rest" by blast
  with gv show ?case by simp
qed

lemma generateAppointmentData_total:
  "unit_draws rs \<Longrightarrow> patients \<noteq> [] \<Longrightarrow> \<exists>rows. generateAppointmentData tz patients rs = Some rows"
  using visit_loop_total [of rs patients tz "[0..<NUM_RECORDS]"]
  by (auto simp: generateAppointmentData_def)

lemma visit_loop_rows:
  "visit_loop tz patients is rs = Some rows \<Longrightarrow> unit_draws rs \<Longrightarrow> r \<in> set rows \<Longrightarrow>
     \<exists>pt i p rs1 rs2. r = fst (procedure_row (make_visit tz pt i rs1) i p rs2) \<and>
        unit_draws rs1 \<and> unit_draws rs2 \<and> pt \<in> set patients"
proof (induction "is" arbitrary: rs rows)
  case Nil
  then show ?case by simp
next
  case (Cons i "is")
  from Cons.prems(1) obtain rows1 rs1 rest
    where gv: "generateVisit tz patients i rs = Some (rows1, rs1)"
      and vl: "visit_loop tz patients is rs1 = Some rest"
      and eq: "rows = rows1 @ rest"
    by (auto split: option.splits prod.splits)
  from Cons.prems(3) eq consider "r \<in> set rows1" | "r \<in> set rest" by auto
  then show ?case
  proof cases
    case 1
    from generateVisit_rows(2) [OF gv Cons.prems(2) 1] Cons.prems(2) show ?thesis by blast
  next
    case 2
    from generateVisit_rows(1) [OF gv Cons.prems(2)] have "unit_draws rs1" .
    from Cons.IH [OF vl this 2] show ?thesis .
  qed
qed

lemma generateAppointmentData_row:
  assumes "generateAppointmentData tz patients rs = Some rows" "unit_draws rs" "r \<in> set rows"
  obtains pt i p rs1 rs2 where "r = fst (procedure_row (make_visit tz pt i rs1) i p rs2)"
    "unit_draws rs1" "unit_draws rs2" "pt \<in> set patients"
proof -
  from assms(1) obtain rows0 where vl: "visit_loop tz patients [0..<NUM_RECORDS] rs = Some rows0"
    and eq: "rows = js_sort compare_appointments rows0"
    by (auto simp: generateAppointmentData_def)
  from assms(3) eq have "r \<in> set rows0" by (simp add: set_js_sort)
  from visit_loop_rows [OF vl assms(2) this] that show thesis by blast
qed

lemma procedure_index_range:
  assumes "0 \<le> u" "u < 1"
  shows "nat \<lfloor>u * 10\<rfloor> < length procedures" "nat \<lfloor>u * real (length procedures)\<rfloor> < length procedures"
proof -
  have len: "length procedures = 34" by (simp add: procedures_def)
  from assms have "\<lfloor>u * 10\<rfloor> < 10" by (simp add: floor_less_iff)
  then show "nat \<lfloor>u * 10\<rfloor> < length procedures" unfolding len by linarith
  from assms have "\<lfloor>u * 34\<rfloor> < 34" by (simp add: floor_less_iff)
  then show "nat \<lfloor>u * real (length procedures)\<rfloor> < length procedures"
    unfolding len by (simp only: of_nat_numeral)
qed

lemma procedure_row_cases:
  assumes "unit_draws rs"
  obtains (completed) pr pid where "appointmentStatus v = ''Completed''" "pr \<in> set procedures"
      "fst (procedure_row v i p rs) = fst (completed_row v pr pid (advance 2 rs))"
  | (blank) pid where "appointmentStatus v \<noteq> ''Completed''"
      "fst (procedure_row v i p rs) = blank_row v pid"
proof (cases "appointmentStatus v = ''Completed''")
  case True
  let ?idx = "if rs 0 < 0.6 then \<lfloor>rs 1 * 10\<rfloor> else \<lfloor>rs 1 * real (length procedures)\<rfloor>"
  have "nat ?idx < length procedures"
    using procedure_index_range [OF unit_drawsD [OF assms, of 1]] by simp
  then have "procedures ! nat ?idx \<in> set procedures" by (rule nth_mem)
  moreover have "fst (procedure_row v i p rs) =
      fst (completed_row v (procedures ! nat ?idx)
             (''PROC'' @ padStart 6 CHR ''0'' (String_num (i * 10 + p + 1))) (advance 2 rs))"
    using True unfolding procedure_row_def Let_def by (simp split del: if_split)
  ultimately show ?thesis using True completed by blast
next
  case False
  then have "fst (procedure_row v i p rs) =
      blank_row v (''PROC'' @ padStart 6 CHR ''0'' (String_num (i * 10 + p + 1)))"
    unfolding procedure_row_def Let_def by simp
  with False blank show ?thesis by blast
qed

lemma blank_row_status: "Appointment_Status (blank_row v pid) = appointmentStatus v"
  by (simp add: blank_row_def)


text \<open>
  Claim C6. In every row of a completed appointment the amount the insurance covers and
  the patient's responsibility add up to the charged amount, and the discount and the
  out-of-pocket amount add up to the patient's responsibility.
\<close>

theorem completed_rows_reconcile:
  assumes "unit_draws rs"
    and "generateAppointmentData tz patients rs = Some rows"
    and "r \<in> set rows"
    and "Appointment_Status r = ''Completed''"
  shows "Insurance_Covered_Amount r + Patient_Responsibility r = Charged_Amount r \<and>
         Discount_Applied r + Out_of_Pocket r = Patient_Responsibility r"
proof -
  from generateAppointmentData_row [OF assms(2) assms(1) assms(3)]
  obtain pt i p rs1 rs' where r: "r = fst (procedure_row (make_visit tz pt i rs1) i p rs')"
    and u: "unit_draws rs'" by metis
  define v where "v = make_visit tz pt i rs1"
  note r = r [folded v_def]
  show ?thesis
  proof (rule procedure_row_cases [OF u, of v i p], goal_cases)
    case (1 pr pid)
    with r have "r = fst (completed_row v pr pid (advance 2 rs'))" by simp
    then show ?thesis by (simp add: completed_row_fields)
  next
    case (2 pid)
    with r assms(4) show ?thesis by (simp add: blank_row_status)
  qed
qed

text \<open>
  Claim C7. A row whose appointment was not completed has a charged amount of 0 and
  every financial, payment, claim and treatment-plan column at zero or empty, whatever
  the draws.
\<close>

theorem not_completed_rows_blank:
  assumes "unit_draws rs"
    and "generateAppointmentData tz patients rs = Some rows"
    and "r \<in> set rows"
    and "Appointment_Status r \<noteq> ''Completed''"
  shows "Charged_Amount r = 0 \<and> Insurance_Covered_Amount r = 0 \<and>
         Patient_Responsibility r = 0 \<and> Discount_Applied r = 0 \<and> Out_of_Pocket r = 0 \<and>
         Amount_Paid r = 0 \<and> Payment_Method r = [] \<and> Payment_Status r = [] \<and>
         Insurance_Claim_Status r = [] \<and> Insurance_Claim_Submission_Date r = None \<and>
         Insurance_Claim_Payment_Date r = None \<and> Treatment_Plan_ID r = [] \<and>
         Treatment_Plan_Creation_Date r = None \<and> Treatment_Plan_Completion_Date r = None \<and>
         Treatment_Plan_Completion_Rate r = 0 \<and> Estimated_Total_Cost r = 0 \<and>
         Procedure_Code r = [] \<and> Procedure_Description r = [] \<and>
         Procedure_Category r = [] \<and> Tooth_Number r = []"
proof -
  from generateAppointmentData_row [OF assms(2) assms(1) assms(3)]
  obtain pt i p rs1 rs' where r: "r = fst (procedure_row (make_visit tz pt i rs1) i p rs')"
    and u: "unit_draws rs'" by metis
  define v where "v = make_visit tz pt i rs1"
  note r = r [folded v_def]
  show ?thesis
  proof (rule procedure_row_cases [OF u, of v i p], goal_cases)
    case (1 pr pid)
    with r assms(4) show ?thesis by (simp add: completed_row_fields)
  next
    case (2 pid)
    with r show ?thesis by (simp add: blank_row_def)
  qed
qed


lemma avg_fee_min: "pr \<in> set procedures \<Longrightarrow> 35 \<le> avg_fee pr"
  by (auto simp: procedures_def mk_procedure_def)

lemma chargedAmount_min:
  assumes "pr \<in> set procedures" "0 \<le> u"
  shows "32 \<le> chargedAmount_of pr u"
proof -
  from avg_fee_min [OF assms(1)] have "35 \<le> real_of_int (avg_fee pr)" by simp
  moreover from assms(2) have "(9 / 10 :: real) \<le> 0.9 + u * 0.2" by simp
  ultimately have "35 * (9 / 10 :: real) \<le> real_of_int (avg_fee pr) * (0.9 + u * 0.2)"
    by (intro mult_mono) simp_all
  then have "js_round (35 * (9 / 10)) \<le> chargedAmount_of pr u"
    unfolding chargedAmount_of_def by (rule js_round_mono)
  then show ?thesis by (simp add: js_round_def)
qed

lemma baseCoverageRate_bounds:
  assumes "name \<noteq> ''No Insurance''"
  shows "0.75 \<le> baseCoverageRate name" "baseCoverageRate name \<le> 0.85"
  using assms by (auto simp: baseCoverageRate_def insuranceProviders_def)

lemma coverageRate_bounds:
  assumes "name \<noteq> ''No Insurance''" "0 \<le> u" "u < 1"
  shows "27 / 40 \<le> coverageRate_of name u" "coverageRate_of name u < 187 / 200"
proof -
  let ?b = "baseCoverageRate name"
  let ?f = "9 / 10 + u * (2 / 10)"
  from assms have f: "9 / 10 \<le> ?f" "?f < 11 / 10" by simp_all
  from baseCoverageRate_bounds [OF assms(1)]
  have b: "3 / 4 \<le> ?b" "?b \<le> 17 / 20" by simp_all
  have "3 / 4 * (9 / 10) \<le> ?b * ?f" using b(1) f(1) by (intro mult_mono) simp_all
  then have lo: "27 / 40 \<le> ?b * ?f" by simp
  have "?b * ?f \<le> 17 / 20 * ?f" using b(2) f(1) by (intro mult_right_mono) simp_all
  also have "\<dots> < 17 / 20 * (11 / 10)" using f(2) by simp
  finally have hi: "?b * ?f < 187 / 200" by simp
  from lo show "27 / 40 \<le> coverageRate_of name u" by (simp add: coverageRate_of_def)
  from hi show "coverageRate_of name u < 187 / 200" by (simp add: coverageRate_of_def)
qed

lemma covered_share_bounds:
  assumes c: "32 \<le> c" and r: "27 / 40 \<le> r" "r < 187 / 200"
  shows "real_of_int c / 2 \<le> real_of_int (js_round (real_of_int c * r))"
    and "real_of_int (js_round (real_of_int c * r)) \<le> 19 / 20 * real_of_int c"
proof -
  define x where "x = real_of_int c * r"
  define k where "k = js_round x"
  from c have cpos: "0 < real_of_int c" "32 \<le> real_of_int c" by simp_all
  have "real_of_int c * (27 / 40) \<le> real_of_int c * r"
    using r(1) cpos(1) by (intro mult_left_mono) simp_all
  then have lo: "27 / 40 * real_of_int c \<le> x" by (simp add: x_def mult.commute)
  have "real_of_int c * r < real_of_int c * (187 / 200)"
    using r(2) cpos(1) by (intro mult_strict_left_mono) simp_all
  then have hi: "x < 187 / 200 * real_of_int c" by (simp add: x_def mult.commute)
  from js_round_lower [of x] lo cpos(2)
  have "real_of_int c / 2 \<le> real_of_int k" unfolding k_def by linarith
  then show "real_of_int c / 2 \<le> real_of_int (js_round (real_of_int c * r))"
    by (simp add: k_def x_def)
  from js_round_upper [of x] hi
  have k: "real_of_int k < 187 / 200 * real_of_int c + 1 / 2" unfolding k_def by linarith
  consider "c = 32" | "c = 33" | "34 \<le> c" using c by linarith
  then have "real_of_int k \<le> 19 / 20 * real_of_int c"
  proof cases
    case 1
    with k have "real_of_int k < 31" by simp
    then have "k \<le> 30" by simp
    then have "real_of_int k \<le> 30" by simp
    with 1 show ?thesis by simp
  next
    case 2
    with k have "real_of_int k < 32" by simp
    then have "k \<le> 31" by simp
    then have "real_of_int k \<le> 31" by simp
    with 2 show ?thesis by simp
  next
    case 3
    then have "34 \<le> real_of_int c" by simp
    with k show ?thesis by linarith
  qed
  then show "real_of_int (js_round (real_of_int c * r)) \<le> 19 / 20 * real_of_int c"
    by (simp add: k_def x_def)
qed

text \<open>
  Claim C2. In every row of a completed appointment of an insured patient, the amount
  the insurance covers divided by the charged amount lies between 0.5 and 0.95, for all
  draws.
\<close>

theorem coverage_rate_clamped:
  assumes "unit_draws rs"
    and "generateAppointmentData tz patients rs = Some rows"
    and "r \<in> set rows"
    and "Appointment_Status r = ''Completed''"
    and "Insurance_Provider r \<noteq> ''No Insurance''"
  shows "0 < Charged_Amount r \<and>
         0.5 \<le> real_of_int (Insurance_Covered_Amount r) / real_of_int (Charged_Amount r) \<and>
         real_of_int (Insurance_Covered_Amount r) / real_of_int (Charged_Amount r) \<le> 0.95"
proof -
  from generateAppointmentData_row [OF assms(2) assms(1) assms(3)]
  obtain pt i p rs1 rs' where r: "r = fst (procedure_row (make_visit tz pt i rs1) i p rs')"
    and u: "unit_draws rs'" by metis
  define v where "v = make_visit tz pt i rs1"
  note r = r [folded v_def]
  show ?thesis
  proof (rule procedure_row_cases [OF u, of v i p], goal_cases)
    case (1 pr pid)
    let ?rs = "advance 2 rs'"
    let ?name = "insurance_provider (the_patient v)"
    let ?c = "chargedAmount_of pr (?rs 0)"
    have u2: "unit_draws ?rs" by (rule unit_draws_advance [OF u])
    from 1 r have row: "r = fst (completed_row v pr pid ?rs)" by simp
    with assms(5) have ins: "?name \<noteq> ''No Insurance''" by (simp add: completed_row_fields)
    from row ins have ch: "Charged_Amount r = ?c"
      and cov: "Insurance_Covered_Amount r = js_round (real_of_int ?c * coverageRate_of ?name (?rs 1))"
      by (simp_all add: completed_row_fields insuranceCovered_of_def)
    have c32: "32 \<le> ?c" by (rule chargedAmount_min [OF 1(2) unit_drawsD(1) [OF u2]])
    note rb = coverageRate_bounds [OF ins unit_drawsD [OF u2, of 1]]
    note sb = covered_share_bounds [OF c32 rb]
    from c32 have cpos: "0 < real_of_int ?c" by simp
    from sb(1) cpos have "1 / 2 \<le> real_of_int (js_round (real_of_int ?c * coverageRate_of ?name (?rs 1))) / real_of_int ?c"
      by (simp add: pos_le_divide_eq)
    moreover from sb(2) cpos have "real_of_int (js_round (real_of_int ?c * coverageRate_of ?name (?rs 1))) / real_of_int ?c \<le> 19 / 20"
      by (simp add: pos_divide_le_eq)
    ultimately show ?thesis using c32 unfolding ch cov by simp
  next
    case (2 pid)
    with r assms(4) show ?thesis by (simp add: blank_row_status)
  qed
qed

lemma upt_NUM_RECORDS: "[0..<NUM_RECORDS] = 0 # [Suc 0..<NUM_RECORDS]"
  by (subst upt_rec) (simp add: NUM_RECORDS_def)

lemma randomBetween_1_3_pos: "0 \<le> u \<Longrightarrow> 1 \<le> randomBetween 1 3 u"
  by (simp add: randomBetween_def le_floor_iff)

lemma procedure_loop_first:
  "0 < n \<Longrightarrow> fst (procedure_row v i 0 rs) \<in> set (fst (procedure_loop v i [0..<n] rs))"
  by (subst upt_rec) (simp split: prod.splits)

lemma first_row_in_table:
  assumes "generateAppointmentData tz patients rs = Some rows" "unit_draws rs"
  shows "fst (procedure_row (make_visit tz (patients ! nat (patientIndex_of patients rs)) 0 rs)
                0 0 (advance 6 rs)) \<in> set rows"
proof -
  let ?v = "make_visit tz (patients ! nat (patientIndex_of patients rs)) 0 rs"
  from assms(1) obtain rows0 where vl: "visit_loop tz patients [0..<NUM_RECORDS] rs = Some rows0"
    and eq: "rows = js_sort compare_appointments rows0"
    by (auto simp: generateAppointmentData_def)
  from vl have "visit_loop tz patients (0 # [Suc 0..<NUM_RECORDS]) rs = Some rows0"
    by (simp only: upt_NUM_RECORDS)
  then obtain rows1 rs1 rest
    where gv: "generateVisit tz patients 0 rs = Some (rows1, rs1)"
      and eq0: "rows0 = rows1 @ rest"
    by (auto simp only: visit_loop.simps split: option.splits prod.splits)
  from randomBetween_1_3_pos [OF unit_drawsD(1) [OF assms(2), of 5]]
  have pos: "0 < nat (randomBetween 1 3 (rs 5))" by simp
  from gv have "rows1 = fst (procedure_loop ?v 0 [0..<nat (randomBetween 1 3 (rs 5))] (advance 6 rs))"
    unfolding generateVisit_def Let_def by (simp split: if_splits)
  with procedure_loop_first [OF pos, of ?v 0 "advance 6 rs"]
  have "fst (procedure_row ?v 0 0 (advance 6 rs)) \<in> set rows1" by simp
  with eq eq0 show ?thesis by (simp add: set_js_sort)
qed


lemma unit_draws_zero: "unit_draws (\<lambda>_. 0)"
  by (simp add: unit_draws_def)

lemma unit_draws_from: "\<forall>x\<in>set xs. 0 \<le> x \<and> x < 1 \<Longrightarrow> unit_draws (draws_from xs)"
  by (simp add: unit_draws_def draws_from_def)

lemma procedure_row_completed:
  "appointmentStatus v = ''Completed'' \<Longrightarrow>
     fst (procedure_row v i p rs) =
       fst (completed_row v
              (procedures ! nat (if rs 0 < 0.6 then \<lfloor>rs 1 * 10\<rfloor>
                                 else \<lfloor>rs 1 * real (length procedures)\<rfloor>))
              (''PROC'' @ padStart 6 CHR ''0'' (String_num (i * 10 + p + 1))) (advance 2 rs))"
  unfolding procedure_row_def Let_def by (simp split del: if_split)

lemma procedure_row_blank:
  "appointmentStatus v \<noteq> ''Completed'' \<Longrightarrow>
     fst (procedure_row v i p rs) =
       blank_row v (''PROC'' @ padStart 6 CHR ''0'' (String_num (i * 10 + p + 1)))"
  unfolding procedure_row_def Let_def by simp

lemma sample_status_zero:
  "appointmentStatus (make_visit tz pt i (\<lambda>_. 0)) = ''Completed''"
  by (simp add: make_visit_fields statusProbabilities_def appointmentStatuses_def)

lemma single_patient_index:
  assumes "unit_draws rs"
  shows "[pt] ! nat (patientIndex_of [pt] rs) = pt"
proof -
  from patient_index_range [OF unit_drawsD [OF assms, of 0], of 1]
  have "nat (patientIndex_of [pt] rs) = 0" by (simp add: patientIndex_of_def)
  then show ?thesis by simp
qed

theorem completed_rows_reconcile_witness:
  "\<exists>rows r. generateAppointmentData 0 [sample_patient] (\<lambda>_. 0) = Some rows \<and> r \<in> set rows \<and>
     Appointment_Status r = ''Completed'' \<and> Charged_Amount r = 54 \<and>
     Insurance_Covered_Amount r = 41 \<and> Patient_Responsibility r = 13 \<and>
     Discount_Applied r + Out_of_Pocket r = 13"
proof -
  let ?rs = "\<lambda>_::nat. 0::real"
  note u = unit_draws_zero
  from generateAppointmentData_total [OF u, of "[sample_patient]" 0]
  obtain rows where rows: "generateAppointmentData 0 [sample_patient] ?rs = Some rows" by auto
  define v where "v = make_visit 0 sample_patient 0 ?rs"
  define r where "r = fst (procedure_row v 0 0 (advance 6 ?rs))"
  from first_row_in_table [OF rows u] have mem: "r \<in> set rows"
    unfolding r_def v_def single_patient_index [OF u] .
  have stv: "appointmentStatus v = ''Completed''" unfolding v_def by (rule sample_status_zero)
  have pt: "the_patient v = sample_patient" by (simp add: v_def make_visit_fields)
  note row = procedure_row_completed [OF stv, of 0 0 "advance 6 ?rs", folded r_def]
  have st: "Appointment_Status r = ''Completed''"
    by (simp add: row completed_row_fields stv)
  have ch: "Charged_Amount r = 54"
    by (simp add: row completed_row_fields advance_def chargedAmount_of_def procedures_def
          mk_procedure_def js_round_def)
  have cov: "Insurance_Covered_Amount r = 41"
    by (simp add: row completed_row_fields pt sample_patient_def advance_def
          chargedAmount_of_def procedures_def mk_procedure_def insuranceCovered_of_def
          coverageRate_of_def baseCoverageRate_def insuranceProviders_def js_round_def)
  from completed_rows_reconcile [OF u rows mem st] ch cov
  have "Patient_Responsibility r = 13" "Discount_Applied r + Out_of_Pocket r = 13" by simp_all
  with rows mem st ch cov show ?thesis by blast
qed


theorem not_completed_rows_blank_witness:
  "\<exists>rows r. generateAppointmentData 0 [sample_patient] (draws_from [0, 0, 0, 0, 0.87]) = Some rows \<and>
     r \<in> set rows \<and> Appointment_Status r = ''No-Show'' \<and> Charged_Amount r = 0 \<and>
     Insurance_Covered_Amount r = 0 \<and> Amount_Paid r = 0 \<and> Payment_Status r = [] \<and>
     Insurance_Claim_Status r = [] \<and> Treatment_Plan_ID r = [] \<and> Estimated_Total_Cost r = 0"
proof -
  let ?rs = "draws_from [0, 0, 0, 0, 0.87]"
  have u: "unit_draws ?rs" by (rule unit_draws_from) simp
  from generateAppointmentData_total [OF u, of "[sample_patient]" 0]
  obtain rows where rows: "generateAppointmentData 0 [sample_patient] ?rs = Some rows" by auto
  define v where "v = make_visit 0 sample_patient 0 ?rs"
  define r where "r = fst (procedure_row v 0 0 (advance 6 ?rs))"
  from first_row_in_table [OF rows u] have mem: "r \<in> set rows"
    unfolding r_def v_def single_patient_index [OF u] .
  have stv: "appointmentStatus v = ''No-Show''"
    by (simp add: v_def make_visit_fields statusProbabilities_def appointmentStatuses_def
          draws_from_def)
  then have "appointmentStatus v \<noteq> ''Completed''" by simp
  note row = procedure_row_blank [OF this, of 0 0 "advance 6 ?rs", folded r_def]
  have st: "Appointment_Status r = ''No-Show''" by (simp add: row blank_row_def stv)
  then have "Appointment_Status r \<noteq> ''Completed''" by simp
  from not_completed_rows_blank [OF u rows mem this] rows mem st show ?thesis by blast
qed


theorem coverage_rate_clamped_witness:
  "\<exists>rows r. generateAppointmentData 0 [sample_patient] (\<lambda>_. 0) = Some rows \<and> r \<in> set rows \<and>
     Appointment_Status r = ''Completed'' \<and> Insurance_Provider r = ''Delta Dental'' \<and>
     Charged_Amount r = 54 \<and> Insurance_Covered_Amount r = 41 \<and>
     0.5 \<le> real_of_int (Insurance_Covered_Amount r) / real_of_int (Charged_Amount r) \<and>
     real_of_int (Insurance_Covered_Amount r) / real_of_int (Charged_Amount r) \<le> 0.95"
proof -
  let ?rs = "\<lambda>_::nat. 0::real"
  note u = unit_draws_zero
  from generateAppointmentData_total [OF u, of "[sample_patient]" 0]
  obtain rows where rows: "generateAppointmentData 0 [sample_patient] ?rs = Some rows" by auto
  define v where "v = make_visit 0 sample_patient 0 ?rs"
  define r where "r = fst (procedure_row v 0 0 (advance 6 ?rs))"
  from first_row_in_table [OF rows u] have mem: "r \<in> set rows"
    unfolding r_def v_def single_patient_index [OF u] .
  have stv: "appointmentStatus v = ''Completed''" unfolding v_def by (rule sample_status_zero)
  have pt: "the_patient v = sample_patient" by (simp add: v_def make_visit_fields)
  note row = procedure_row_completed [OF stv, of 0 0 "advance 6 ?rs", folded r_def]
  have st: "Appointment_Status r = ''Completed''"
    by (simp add: row completed_row_fields stv)
  have ins: "Insurance_Provider r = ''Delta Dental''"
    by (simp add: row completed_row_fields pt sample_patient_def)
  then have ins': "Insurance_Provider r \<noteq> ''No Insurance''" by simp
  have ch: "Charged_Amount r = 54"
    by (simp add: row completed_row_fields advance_def chargedAmount_of_def procedures_def
          mk_procedure_def js_round_def)
  have cov: "Insurance_Covered_Amount r = 41"
    by (simp add: row completed_row_fields pt sample_patient_def advance_def
          chargedAmount_of_def procedures_def mk_procedure_def insuranceCovered_of_def
          coverageRate_of_def baseCoverageRate_def insuranceProviders_def js_round_def)
  from coverage_rate_clamped [OF u rows mem st ins'] rows mem st ins ch cov
  show ?thesis by blast
qed











lemma procedure_row_common:
  assumes "unit_draws rs"
  shows "Date_of_Service (fst (procedure_row v i p rs)) = formattedVisitDate v"
    and "Is_New_Patient (fst (procedure_row v i p rs)) = isNewPatient v"
    and "Patient_ID (fst (procedure_row v i p rs)) = patient_id (the_patient v)"
    and "Insurance_Provider (fst (procedure_row v i p rs)) = insurance_provider (the_patient v)"
    and "Appointment_Status (fst (procedure_row v i p rs)) = appointmentStatus v"
  by (rule procedure_row_cases [OF assms, of v i p];
      simp add: completed_row_fields blank_row_def)+

lemma formatDate_utc_midnight: "formatDate_ms (utc_midnight s) = day_of s"
  by (simp add: formatDate_ms_def utc_midnight_def ms_per_day_def)

lemma isNewPatient_iff:
  "isNewPatient v = (formattedVisitDate v = day_of (registration_date (the_patient v)))"
  by (auto simp: isNewPatient_def formatDate_utc_midnight)

lemma randomDate_bounds:
  assumes "0 \<le> lo" "lo \<le> e" "0 \<le> u" "u < 1"
  shows "lo \<le> randomDate lo e u" "randomDate lo e u \<le> e"
proof -
  define x where "x = real_of_int lo + u * real_of_int (e - lo)"
  from assms have d: "0 \<le> real_of_int (e - lo)" by simp
  with assms(3) have p: "0 \<le> u * real_of_int (e - lo)" by simp
  have q: "u * real_of_int (e - lo) \<le> real_of_int (e - lo)"
    using mult_right_mono [of u 1 "real_of_int (e - lo)"] d assms(4) by simp
  from p have xlo: "real_of_int lo \<le> x" by (simp add: x_def)
  from q have xhi: "x \<le> real_of_int e" by (simp add: x_def)
  from xlo assms(1) have "0 \<le> x" by linarith
  then have t: "randomDate lo e u = \<lfloor>x\<rfloor>" by (simp add: randomDate_def js_trunc_def x_def)
  from xlo show "lo \<le> randomDate lo e u" unfolding t by (simp add: le_floor_iff)
  from xhi show "randomDate lo e u \<le> e" unfolding t by (simp add: floor_le_iff)
qed

lemma day_of_values:
  "day_of (2020, 1, 1) = 18262" "day_of (2025, 4, 1) = 20179" "day_of (2018, 1, 1) = 17532"
  "day_of (2019, 12, 31) = 18261" "day_of (1970, 1, 1) = 0"
  by (simp_all add: day_of_def days_from_civil_def Let_def)


lemma START_TIME_nonneg: "valid_tz tz \<Longrightarrow> 0 \<le> START_TIME tz"
  by (simp add: valid_tz_def START_TIME_def local_midnight_def day_of_values ms_per_day_def)

lemma START_le_END: "START_TIME tz \<le> END_TIME tz"
  by (simp add: START_TIME_def END_TIME_def local_midnight_def day_of_values ms_per_day_def)

text \<open>The instant of a visit is never before the start instant.\<close>

lemma visitDate_ge_START:
  assumes "valid_tz tz" "unit_draws rs"
    and "utc_midnight (registration_date pt) \<le> END_TIME tz"
  shows "START_TIME tz \<le> visitDate (make_visit tz pt i rs)"
    and "utc_midnight (registration_date pt) \<le> visitDate (make_visit tz pt i rs)"
    and "visitDate (make_visit tz pt i rs) \<le> END_TIME tz"
proof -
  let ?reg = "utc_midnight (registration_date pt)"
  let ?lo = "if ?reg > START_TIME tz then ?reg else START_TIME tz"
  have lo0: "0 \<le> ?lo" using START_TIME_nonneg [OF assms(1)] by simp
  have loe: "?lo \<le> END_TIME tz" using assms(3) START_le_END [of tz] by simp
  note b = randomDate_bounds [OF lo0 loe unit_drawsD [OF assms(2), of 1]]
  have vd: "visitDate (make_visit tz pt i rs) = randomDate ?lo (END_TIME tz) (rs 1)"
    by (simp only: make_visit_fields)
  from b(1) show "START_TIME tz \<le> visitDate (make_visit tz pt i rs)"
    unfolding vd by (simp split: if_splits)
  from b(1) show "?reg \<le> visitDate (make_visit tz pt i rs)"
    unfolding vd by (simp split: if_splits)
  from b(2) show "visitDate (make_visit tz pt i rs) \<le> END_TIME tz" unfolding vd .
qed

lemma sample_run_rows:
  assumes "generateAppointmentData 0 [sample_patient] rs = Some rows" "unit_draws rs"
    "r \<in> set rows"
  shows "Patient_ID r = ''PAT0001''" "18262 \<le> Date_of_Service r" "\<not> Is_New_Patient r"
proof -
  from generateAppointmentData_row [OF assms]
  obtain pt i p rs1 rs2 where r: "r = fst (procedure_row (make_visit 0 pt i rs1) i p rs2)"
    and u: "unit_draws rs1" "unit_draws rs2" and pt: "pt \<in> set [sample_patient]" by metis
  from pt have pt: "pt = sample_patient" by simp
  let ?v = "make_visit 0 sample_patient i rs1"
  have tz: "valid_tz 0" by (simp add: valid_tz_def)
  have reg: "utc_midnight (registration_date sample_patient) \<le> END_TIME 0"
    by (simp add: sample_patient_def utc_midnight_def END_TIME_def local_midnight_def
          day_of_values ms_per_day_def)
  from visitDate_ge_START(1) [OF tz u(1) reg, of i]
  have "18262 * ms_per_day \<le> visitDate ?v"
    by (simp add: START_TIME_def local_midnight_def day_of_values)
  then have d: "18262 \<le> formattedVisitDate ?v"
    unfolding formattedVisitDate_def formatDate_ms_def ms_per_day_def
    by (simp add: zdiv_mono1 [of "18262 * 86400000" _ 86400000, simplified])
  show "Patient_ID r = ''PAT0001''"
    unfolding r pt by (simp add: procedure_row_common [OF u(2)] make_visit_fields sample_patient_def)
  from d show "18262 \<le> Date_of_Service r"
    unfolding r pt by (simp add: procedure_row_common [OF u(2)])
  from d show "\<not> Is_New_Patient r"
    unfolding r pt
    by (simp add: procedure_row_common [OF u(2)] isNewPatient_iff make_visit_fields
          sample_patient_def day_of_values)
qed

text \<open>
  Claim C10. In every row, completed or not, the new-patient flag is set exactly when the
  day of service printed in the row is the registration date of the row's patient. It is
  not a mark of the patient's first visit: in the run of one patient registered on
  2018-01-01 with all draws 0, the earliest row of the patient is not flagged.
\<close>

theorem is_new_patient_compares_dates:
  assumes "unit_draws rs" and "generateAppointmentData tz patients rs = Some rows"
    and "r \<in> set rows"
  shows "(\<exists>pt\<in>set patients. Patient_ID r = patient_id pt \<and>
            Is_New_Patient r = (Date_of_Service r = day_of (registration_date pt))) \<and>
         (\<exists>rows' r'. generateAppointmentData 0 [sample_patient] (\<lambda>_. 0) = Some rows' \<and>
            r' \<in> set rows' \<and>
            (\<forall>r''\<in>set rows'. Patient_ID r'' = Patient_ID r' \<and>
                               Date_of_Service r' \<le> Date_of_Service r'') \<and>
            \<not> Is_New_Patient r')"
proof
  from generateAppointmentData_row [OF assms(2) assms(1) assms(3)]
  obtain pt i p rs1 rs2 where r: "r = fst (procedure_row (make_visit tz pt i rs1) i p rs2)"
    and u: "unit_draws rs2" and pt: "pt \<in> set patients" by metis
  have "Patient_ID r = patient_id pt"
    unfolding r by (simp add: procedure_row_common [OF u] make_visit_fields)
  moreover have "Is_New_Patient r = (Date_of_Service r = day_of (registration_date pt))"
    unfolding r by (simp add: procedure_row_common [OF u] isNewPatient_iff make_visit_fields)
  ultimately show "\<exists>pt\<in>set patients. Patient_ID r = patient_id pt \<and>
            Is_New_Patient r = (Date_of_Service r = day_of (registration_date pt))"
    using pt by blast
next
  let ?rs = "\<lambda>_::nat. 0::real"
  note u = unit_draws_zero
  from generateAppointmentData_total [OF u, of "[sample_patient]" 0]
  obtain rows' where rows: "generateAppointmentData 0 [sample_patient] ?rs = Some rows'" by auto
  from first_row_in_table [OF rows u] have ne: "set rows' \<noteq> {}" by auto
  let ?D = "Date_of_Service ` set rows'"
  have "Min ?D \<in> ?D" using ne by (intro Min_in) simp_all
  then obtain r' where r': "r' \<in> set rows'" "Date_of_Service r' = Min ?D" by auto
  have "Patient_ID r'' = Patient_ID r' \<and> Date_of_Service r' \<le> Date_of_Service r''"
    if "r'' \<in> set rows'" for r''
    using sample_run_rows(1) [OF rows u that] sample_run_rows(1) [OF rows u r'(1)] r'(2) that
    by simp
  with rows r'(1) sample_run_rows(3) [OF rows u r'(1)]
  show "\<exists>rows' r'. generateAppointmentData 0 [sample_patient] ?rs = Some rows' \<and>
            r' \<in> set rows' \<and>
            (\<forall>r''\<in>set rows'. Patient_ID r'' = Patient_ID r' \<and>
                               Date_of_Service r' \<le> Date_of_Service r'') \<and>
            \<not> Is_New_Patient r'"
    by blast
qed

theorem is_new_patient_compares_dates_witness:
  "\<exists>rows r. generateAppointmentData 0 [sample_patient] (\<lambda>_. 0) = Some rows \<and> r \<in> set rows \<and>
     Patient_ID r = ''PAT0001'' \<and> Date_of_Service r = day_of (2020, 1, 1) \<and>
     registration_date sample_patient = (2018, 1, 1) \<and>
     Is_New_Patient r = (Date_of_Service r = day_of (2018, 1, 1)) \<and> \<not> Is_New_Patient r"
proof -
  let ?rs = "\<lambda>_::nat. 0::real"
  note u = unit_draws_zero
  from generateAppointmentData_total [OF u, of "[sample_patient]" 0]
  obtain rows where rows: "generateAppointmentData 0 [sample_patient] ?rs = Some rows" by auto
  define v where "v = make_visit 0 sample_patient 0 ?rs"
  define r where "r = fst (procedure_row v 0 0 (advance 6 ?rs))"
  from first_row_in_table [OF rows u] have mem: "r \<in> set rows"
    unfolding r_def v_def single_patient_index [OF u] .
  have u6: "unit_draws (advance 6 ?rs)" by (rule unit_draws_advance [OF u])
  have id: "Patient_ID r = ''PAT0001''" by (rule sample_run_rows(1) [OF rows u mem])
  have d: "Date_of_Service r = day_of (2020, 1, 1)"
    unfolding r_def v_def
    by (simp add: procedure_row_common [OF u6] formattedVisitDate_def make_visit_fields
          sample_patient_def utc_midnight_def START_TIME_def END_TIME_def local_midnight_def
          day_of_values randomDate_def js_trunc_def formatDate_ms_def ms_per_day_def)
  from is_new_patient_compares_dates [OF u rows mem]
  have new: "Is_New_Patient r = (Date_of_Service r = day_of (2018, 1, 1))"
    by (simp add: sample_patient_def)
  with d have "\<not> Is_New_Patient r" by (simp add: day_of_values)
  with rows mem id d new show ?thesis by (auto simp: sample_patient_def)
qed

lemma randomBetween_bounds:
  assumes "0 \<le> u" "u < 1" "mn \<le> mx"
  shows "mn \<le> randomBetween mn mx u" "randomBetween mn mx u \<le> mx"
proof -
  define w where "w = real_of_int (mx - mn + 1)"
  from assms(3) have w: "0 < w" by (simp add: w_def)
  from assms(1) w have p: "0 \<le> u * w" by simp
  from assms(2) w have q: "u * w < w" by simp
  have rb: "randomBetween mn mx u = \<lfloor>u * w + real_of_int mn\<rfloor>"
    by (simp add: randomBetween_def w_def)
  from p show "mn \<le> randomBetween mn mx u" unfolding rb by (simp add: le_floor_iff)
  from q have "u * w + real_of_int mn < real_of_int (mx + 1)" by (simp add: w_def)
  then have "\<lfloor>u * w + real_of_int mn\<rfloor> < mx + 1" by (simp only: floor_less_iff)
  then show "randomBetween mn mx u \<le> mx" unfolding rb by simp
qed

lemma days_from_civil_bound:
  assumes "2018 \<le> y" "y \<le> 2024" "1 \<le> m" "m \<le> 12" "1 \<le> d" "d \<le> 28"
  shows "17532 \<le> days_from_civil y m d" "days_from_civil y m d \<le> 20147"
proof -
  define y' where "y' = (if m \<le> 2 then y - 1 else y)"
  define mp where "mp = (if m > 2 then m - 3 else m + 9)"
  from assms have y': "2017 \<le> y'" "y' \<le> 2024" by (auto simp: y'_def)
  then have era: "y' div 400 = 5" by linarith
  define yoe where "yoe = y' - 2000"
  from y' have yoe: "17 \<le> yoe" "yoe \<le> 24" by (simp_all add: yoe_def)
  from assms have mp: "0 \<le> mp" "mp \<le> 11" by (auto simp: mp_def)
  have dfc: "days_from_civil y m d =
      5 * 146097 + (yoe * 365 + yoe div 4 - yoe div 100 + ((153 * mp + 2) div 5 + d - 1)) - 719468"
    unfolding days_from_civil_def Let_def y'_def [symmetric] mp_def [symmetric] era yoe_def
    by simp
  from yoe have q4: "4 \<le> yoe div 4" "yoe div 4 \<le> 6" by linarith+
  from yoe have q100: "yoe div 100 = 0" by simp
  from mp have q5: "0 \<le> (153 * mp + 2) div 5" "(153 * mp + 2) div 5 \<le> 337" by linarith+
  have lo: "y = 2018 \<and> m \<le> 2 \<or> 18 \<le> yoe" using assms y' by (auto simp: yoe_def y'_def)
  from lo show "17532 \<le> days_from_civil y m d"
  proof
    assume a: "y = 2018 \<and> m \<le> 2"
    then have "yoe = 17" "mp = m + 9" by (simp_all add: yoe_def y'_def mp_def)
    moreover from a assms have "m = 1 \<or> m = 2" by linarith
    then have "306 \<le> (153 * (m + 9) + 2) div 5" by auto
    ultimately show ?thesis unfolding dfc using assms by simp
  next
    assume "18 \<le> yoe"
    with q4 q5 assms show ?thesis unfolding dfc q100 by linarith
  qed
  from yoe q4 q5 assms show "days_from_civil y m d \<le> 20147" unfolding dfc q100 by linarith
qed

lemma generatePatient_registration:
  assumes "unit_draws rs"
  shows "17532 \<le> day_of (registration_date (fst (generatePatient i rs)))"
    and "day_of (registration_date (fst (generatePatient i rs))) \<le> 20147"
    and "unit_draws (snd (generatePatient i rs))"
proof -
  define rs1 where "rs1 = advance (if rs 4 < 0.8 then 6 else 5) rs"
  have u1: "unit_draws rs1" unfolding rs1_def by (rule unit_draws_advance [OF assms])
  have reg: "registration_date (fst (generatePatient i rs)) =
      (randomBetween 2018 2024 (rs1 0), randomBetween 1 12 (rs1 1), randomBetween 1 28 (rs1 2))"
    unfolding generatePatient_def Let_def rs1_def by simp
  note y = randomBetween_bounds [OF unit_drawsD [OF u1, of 0], of 2018 2024]
  note m = randomBetween_bounds [OF unit_drawsD [OF u1, of 1], of 1 12]
  note d = randomBetween_bounds [OF unit_drawsD [OF u1, of 2], of 1 28]
  from days_from_civil_bound [of "randomBetween 2018 2024 (rs1 0)" "randomBetween 1 12 (rs1 1)"
      "randomBetween 1 28 (rs1 2)"] y m d
  show "17532 \<le> day_of (registration_date (fst (generatePatient i rs)))"
    and "day_of (registration_date (fst (generatePatient i rs))) \<le> 20147"
    unfolding reg day_of_def by simp_all
  show "unit_draws (snd (generatePatient i rs))"
    unfolding generatePatient_def Let_def by (simp add: unit_draws_advance assms)
qed

lemma patients_loop_rows:
  "patients_loop is rs = (ps, rs') \<Longrightarrow> unit_draws rs \<Longrightarrow>
     unit_draws rs' \<and> length ps = length is \<and>
     (\<forall>pt\<in>set ps. 17532 \<le> day_of (registration_date pt) \<and>
                    day_of (registration_date pt) \<le> 20147)"
proof (induction "is" arbitrary: rs ps rs')
  case Nil
  then show ?case by simp
next
  case (Cons i "is")
  obtain p rs1 where gp: "generatePatient i rs = (p, rs1)" by (cases "generatePatient i rs")
  obtain ps1 rs2 where pl: "patients_loop is rs1 = (ps1, rs2)"
    by (cases "patients_loop is rs1")
  from generatePatient_registration [OF Cons.prems(2), of i] gp
  have p: "17532 \<le> day_of (registration_date p)" "day_of (registration_date p) \<le> 20147"
    "unit_draws rs1" by simp_all
  from Cons.IH [OF pl p(3)] Cons.prems(1) gp pl p show ?case by auto
qed


lemma div_day_bounds:
  "a * ms_per_day \<le> t \<Longrightarrow> a \<le> formatDate_ms t"
  "t < b * ms_per_day + ms_per_day \<Longrightarrow> formatDate_ms t \<le> b"
  unfolding formatDate_ms_def ms_per_day_def by linarith+

text \<open>
  What holds of the printed day of service in every time zone, and what holds only in a
  zone that is not ahead of UTC.
\<close>

lemma service_date_bounds:
  assumes "valid_tz tz" "unit_draws rs" "appointments_run tz rs = Some rows" "r \<in> set rows"
  shows "\<exists>pt\<in>set (fst (generatePatients rs)). Patient_ID r = patient_id pt \<and>
           day_of (registration_date pt) \<le> Date_of_Service r \<and>
           Date_of_Service r \<le> day_of (2025, 4, 1) \<and>
           (tz \<le> 0 \<longrightarrow> day_of (2020, 1, 1) \<le> Date_of_Service r)"
proof -
  obtain ps rs0 where gp: "generatePatients rs = (ps, rs0)" by (cases "generatePatients rs")
  from gp have pl: "patients_loop [1..<Suc NUM_PATIENTS] rs = (ps, rs0)"
    by (simp add: generatePatients_def)
  from patients_loop_rows [OF pl assms(2)]
  have u0: "unit_draws rs0"
    and regs: "\<And>pt. pt \<in> set ps \<Longrightarrow> day_of (registration_date pt) \<le> 20147" by auto
  from assms(3) gp have run: "generateAppointmentData tz ps rs0 = Some rows"
    by (simp add: appointments_run_def)
  from generateAppointmentData_row [OF run u0 assms(4)]
  obtain pt i p rs1 rs2 where r: "r = fst (procedure_row (make_visit tz pt i rs1) i p rs2)"
    and u: "unit_draws rs1" "unit_draws rs2" and pt: "pt \<in> set ps" by metis
  let ?v = "make_visit tz pt i rs1"
  from assms(1) have tz: "- 720 \<le> tz" "tz \<le> 840" by (simp_all add: valid_tz_def)
  have E: "END_TIME tz = 20179 * ms_per_day - tz * 60000"
    and S: "START_TIME tz = 18262 * ms_per_day - tz * 60000"
    by (simp_all add: END_TIME_def START_TIME_def local_midnight_def day_of_values)
  from regs [OF pt] have "day_of (registration_date pt) * ms_per_day \<le> 20147 * ms_per_day"
    by (simp add: ms_per_day_def)
  with tz have reg: "utc_midnight (registration_date pt) \<le> END_TIME tz"
    unfolding E utc_midnight_def ms_per_day_def by linarith
  note b = visitDate_ge_START [OF assms(1) u(1) reg, of i]
  have d: "Date_of_Service r = formatDate_ms (visitDate ?v)"
    unfolding r by (simp add: procedure_row_common [OF u(2)] formattedVisitDate_def)
  have 1: "day_of (registration_date pt) \<le> Date_of_Service r"
    unfolding d using b(2) by (intro div_day_bounds(1)) (simp add: utc_midnight_def)
  have "visitDate ?v < 20179 * ms_per_day + ms_per_day"
    using b(3) tz(1) unfolding E ms_per_day_def by linarith
  then have 2: "Date_of_Service r \<le> day_of (2025, 4, 1)"
    unfolding d day_of_values by (rule div_day_bounds(2))
  have 3: "day_of (2020, 1, 1) \<le> Date_of_Service r" if "tz \<le> 0"
  proof -
    from b(1) that have "18262 * ms_per_day \<le> visitDate ?v"
      unfolding S ms_per_day_def by linarith
    then show ?thesis unfolding d day_of_values by (rule div_day_bounds(1))
  qed
  have "Patient_ID r = patient_id pt"
    unfolding r by (simp add: procedure_row_common [OF u(2)] make_visit_fields)
  with 1 2 3 pt gp show ?thesis by auto
qed

lemma advance_zero: "advance k (\<lambda>_. 0) = (\<lambda>_. 0)"
  by (simp add: advance_def)

lemma generatePatient_zero:
  "snd (generatePatient i (\<lambda>_. 0)) = (\<lambda>_. 0)"
  "registration_date (fst (generatePatient i (\<lambda>_. 0))) = (2018, 1, 1)"
  by (simp_all add: generatePatient_def Let_def advance_zero randomBetween_def)

lemma patients_loop_zero:
  "patients_loop is (\<lambda>_. 0) = (map (\<lambda>i. fst (generatePatient i (\<lambda>_. 0))) is, \<lambda>_. 0)"
  by (induction "is") (simp_all add: generatePatient_zero case_prod_beta)

lemma map_upt_first: "0 < n \<Longrightarrow> map f [1..<Suc n] ! 0 = f 1"
  using nth_map [of 0 "[1..<Suc n]" f] nth_upt [of 1 0 "Suc n"]
  by (simp del: upt_Suc)

text \<open>
  Claim C5, at an input on which the code departs from it. The host is one hour ahead
  of UTC (\<open>tz = 60\<close>) and every draw is 0. Then all patients are registered on
  2018-01-01, the first visit is drawn at the start instant, local midnight of
  2020-01-01, which is 23:00 UTC of the day before, and the row prints 2019-12-31 as its
  day of service.
\<close>

theorem service_date_before_start_ahead_of_utc:
  "\<exists>rows r. appointments_run 60 (\<lambda>_. 0) = Some rows \<and> r \<in> set rows \<and>
     Date_of_Service r = day_of (2019, 12, 31) \<and> Date_of_Service r < day_of (2020, 1, 1)"
proof -
  let ?rs = "\<lambda>_::nat. 0::real"
  let ?ps = "map (\<lambda>i. fst (generatePatient i ?rs)) [1..<Suc NUM_PATIENTS]"
  note u = unit_draws_zero
  have gp: "generatePatients ?rs = (?ps, ?rs)"
    by (simp only: generatePatients_def patients_loop_zero)
  have ne: "?ps \<noteq> []" by (simp add: NUM_PATIENTS_def)
  from generateAppointmentData_total [OF u ne, of 60]
  obtain rows where rows: "generateAppointmentData 60 ?ps ?rs = Some rows" by blast
  with gp have run: "appointments_run 60 ?rs = Some rows" by (simp add: appointments_run_def)
  have idx: "nat (patientIndex_of ?ps ?rs) = 0" by (simp add: patientIndex_of_def)
  have "0 < NUM_PATIENTS" by (simp add: NUM_PATIENTS_def)
  then have p0: "?ps ! 0 = fst (generatePatient 1 ?rs)" by (rule map_upt_first)
  define v where "v = make_visit 60 (fst (generatePatient 1 ?rs)) 0 ?rs"
  define r where "r = fst (procedure_row v 0 0 (advance 6 ?rs))"
  from first_row_in_table [OF rows u] have mem: "r \<in> set rows"
    unfolding r_def v_def idx p0 .
  have u6: "unit_draws (advance 6 ?rs)" by (rule unit_draws_advance [OF u])
  have d: "Date_of_Service r = 18261"
    unfolding r_def v_def
    by (simp add: procedure_row_common [OF u6] formattedVisitDate_def make_visit_fields
          generatePatient_zero utc_midnight_def START_TIME_def END_TIME_def local_midnight_def
          day_of_values randomDate_def js_trunc_def formatDate_ms_def ms_per_day_def)
  with run mem show ?thesis by (auto simp: day_of_values)
qed

section \<open>Properties of the monthly financial generator\<close>

subsection \<open>What the loops produce\<close>

lemma open_fields:
  assumes "l \<in> set locations"
  shows "getFullYear (Date_parse tz (opened_date l)) = fst (opened_date l)"
    and "getMonth (Date_parse tz (opened_date l)) = fst (snd (opened_date l)) - 1"
    and "fst (opened_date l) < 2020"
proof -
  from assms consider "l = LOC001" | "l = LOC002" | "l = LOC003"
    by (auto simp: locations_def)
  then have "getFullYear (Date_parse tz (opened_date l)) = fst (opened_date l) \<and>
    getMonth (Date_parse tz (opened_date l)) = fst (snd (opened_date l)) - 1 \<and>
    fst (opened_date l) < 2020"
    by cases (simp_all add: LOC001_def LOC002_def LOC003_def Date_parse_def)
  then show "getFullYear (Date_parse tz (opened_date l)) = fst (opened_date l)"
    and "getMonth (Date_parse tz (opened_date l)) = fst (snd (opened_date l)) - 1"
    and "fst (opened_date l) < 2020" by simp_all
qed

lemma startDate_locations:
  assumes "l \<in> set locations"
  shows "startDate_of tz l = month_date 0"
proof -
  from open_fields(1,2) [OF assms, where tz = tz] open_fields(3) [OF assms]
  have "\<not> date_less START_DATE (Date_parse tz (opened_date l))"
    by (simp add: date_less_def START_DATE_def Date_local_def)
  then show ?thesis
    by (simp add: startDate_of_def Let_def START_DATE_def Date_local_def setDate1_def
          month_date_def)
qed

lemma setMonth_month_date:
  "setMonth (month_date k) (getMonth (month_date k) + 1) = month_date (Suc k)"
proof -
  have dim: "1 \<le> days_in_month y m" for y m by (simp add: days_in_month_def)
  show ?thesis
  proof (cases "k mod 12 = 11")
    case True
    then have "Suc k mod 12 = 0" "Suc k div 12 = Suc (k div 12)"
      by (simp_all add: mod_Suc div_Suc)
    with True dim show ?thesis
      by (simp add: setMonth_def month_date_def Date_local_def norm_month_def)
  next
    case False
    then have s: "Suc k mod 12 = Suc (k mod 12)" "Suc k div 12 = k div 12"
      by (simp_all add: mod_Suc div_Suc)
    have "k mod 12 < 12" by simp
    with False have "int (k mod 12) + 1 < 12" by linarith
    then have "(int (k mod 12) + 1) div 12 = 0" "(int (k mod 12) + 1) mod 12 = int (k mod 12) + 1"
      by simp_all
    with s dim show ?thesis
      by (simp add: setMonth_def month_date_def Date_local_def norm_month_def)
  qed
qed

lemma date_le_month_date: "date_le (month_date k) END_DATE \<longleftrightarrow> k < 64"
proof -
  have "k div 12 < 5 \<or> k div 12 = 5 \<and> k mod 12 \<le> 3 \<longleftrightarrow> k < 64" by presburger
  then show ?thesis
    by (auto simp: date_le_def date_less_def month_date_def Date_local_def END_DATE_def)
qed

lemma month_loop_from:
  "k \<le> 64 \<Longrightarrow> month_loop tz l (month_date k) rs =
     (map (\<lambda>j. generateMonthlyFinancialData tz (month_date (k + j)) l (advance (53 * j) rs))
        [0..<64 - k],
      advance (53 * (64 - k)) rs)"
proof (induction "64 - k" arbitrary: k rs)
  case 0
  then have "k = 64" by simp
  then show ?case
    by (subst month_loop.simps) (simp add: date_le_month_date advance_0)
next
  case (Suc n)
  then have k: "k < 64" "n = 64 - Suc k" "Suc k \<le> 64" by simp_all
  have up: "[0..<64 - k] = 0 # map Suc [0..<64 - Suc k]"
    using k(1) by (metis Suc_diff_Suc map_Suc_upt upt_conv_Cons zero_less_diff)
  have ar: "53 * (64 - Suc k) + 53 = 53 * (64 - k)" using k(1) by simp
  have step: "month_loop tz l (month_date k) rs =
      (generateMonthlyFinancialData tz (month_date k) l rs
         # fst (month_loop tz l (month_date (Suc k)) (advance 53 rs)),
       snd (month_loop tz l (month_date (Suc k)) (advance 53 rs)))"
    by (subst month_loop.simps)
       (simp add: date_le_month_date k(1) setMonth_month_date case_prod_beta)
  note ih = Suc.hyps(1) [OF k(2) k(3), of "advance 53 rs"]
  have adv: "advance (53 * j) (advance 53 rs) = advance (53 * Suc j) rs" for j
    by (simp add: advance_advance add.commute)
  show ?case
    unfolding step ih up advance_advance ar
    by (simp add: advance_0 comp_def add.commute del: upt_Suc)
qed

lemma month_loop_location:
  assumes "l \<in> set locations"
  shows "month_loop tz l (startDate_of tz l) rs = (location_months tz l rs, advance 3392 rs)"
  unfolding startDate_locations [OF assms] location_months_def
  using month_loop_from [of 0 tz l rs] by simp

lemma location_loop_locations:
  "fst (location_loop tz locations rs) =
     location_months tz LOC001 rs @ location_months tz LOC002 (advance 3392 rs)
       @ location_months tz LOC003 (advance 6784 rs)"
proof -
  have in1: "LOC001 \<in> set locations" and in2: "LOC002 \<in> set locations"
    and in3: "LOC003 \<in> set locations" by (simp_all add: locations_def)
  show ?thesis
    unfolding locations_def
    by (simp add: month_loop_location [OF in1] month_loop_location [OF in2]
          month_loop_location [OF in3] advance_advance)
qed


lemma gm_keys:
  "Location_ID (generateMonthlyFinancialData tz d l rs) = loc_id l"
  "Date (generateMonthlyFinancialData tz d l rs) = formatDate tz d"
  "Year (generateMonthlyFinancialData tz d l rs) = getFullYear d"
  "Month (generateMonthlyFinancialData tz d l rs) = getMonth d + 1"
  "Period (generateMonthlyFinancialData tz d l rs) =
     String_num (nat (getFullYear d)) @ ''-'' @ padStart 2 CHR ''0'' (String_num (nat (getMonth d + 1)))"
  by (simp_all add: generateMonthlyFinancialData_def Let_def)

lemma formatDate_month_date: "formatDate tz (month_date k) = first_day k + (- tz) div 1440"
  by (simp add: formatDate_def month_date_def Date_local_def first_day_def)

lemma first_day_sorted: "sorted (map first_day [0..<64])"
  by code_simp

lemma first_day_mono: "i \<le> j \<Longrightarrow> j < 64 \<Longrightarrow> first_day i \<le> first_day j"
  using first_day_sorted sorted_iff_nth_mono [of "map first_day [0..<64]"]
  by (simp del: upt_Suc)

lemma insert_sorted_head:
  "xs = [] \<or> cmp x (hd xs) \<le> 0 \<Longrightarrow> insert_sorted cmp x xs = x # xs"
  by (cases xs) auto

lemma js_sort_sorted:
  "sorted_wrt (\<lambda>a b. cmp a b \<le> 0) xs \<Longrightarrow> js_sort cmp xs = xs"
proof (induction xs)
  case Nil
  then show ?case by (simp add: js_sort_def)
next
  case (Cons x xs)
  then have ih: "js_sort cmp xs = xs" by simp
  from Cons.prems have "xs = [] \<or> cmp x (hd xs) \<le> 0" by (cases xs) auto
  then have "insert_sorted cmp x xs = x # xs" by (rule insert_sorted_head)
  with ih show ?case by (simp add: js_sort_def)
qed

lemma with_changes_alt:
  "with_changes A c = set_changes (amounts (prevMonth_of A c)) (amounts (prevYear_of A c)) c"
  unfolding with_changes_def Let_def set_changes_def amounts_def
  by (cases "prevMonth_of A c"; cases "prevYear_of A c") simp_all


lemma find_related:
  assumes "list_all2 R xs ys" "\<And>a b. R a b \<Longrightarrow> P a = Q b"
  shows "rel_option R (find P xs) (find Q ys)"
  using assms(1)
proof (induction rule: list_all2_induct)
  case Nil
  then show ?case by simp
next
  case (Cons x xs y ys)
  with assms(2) [of x y] show ?case by simp
qed

lemma amounts_related: "rel_option same_core x y \<Longrightarrow> amounts x = amounts y"
  by (cases x; cases y) (simp_all add: amounts_def same_core_def)

lemma set_changes_core: "same_core (set_changes m y c) c"
  by (cases m; cases y) (auto simp: set_changes_def same_core_def)

lemma with_changes_core: "same_core (with_changes fd c) c"
  unfolding with_changes_alt by (rule set_changes_core)

lemma same_core_refl: "same_core a a"
  by (simp add: same_core_def)

lemma with_changes_cong:
  assumes "list_all2 same_core A B"
  shows "with_changes A c = with_changes B c"
proof -
  have pm: "rel_option same_core (prevMonth_of A c) (prevMonth_of B c)"
    unfolding prevMonth_of_def
    by (rule find_related [OF assms]) (simp add: same_core_def is_prev_month_def)
  have py: "rel_option same_core (prevYear_of A c) (prevYear_of B c)"
    unfolding prevYear_of_def
    by (rule find_related [OF assms]) (simp add: same_core_def is_prev_year_def)
  show ?thesis
    unfolding with_changes_alt amounts_related [OF pm] amounts_related [OF py] ..
qed

lemma comparative_loop_from:
  "i \<le> length A \<Longrightarrow>
     comparative_loop i A = take i A @ map (with_changes A) (drop i A)"
proof (induction "length A - i" arbitrary: i A)
  case 0
  then show ?case by (subst comparative_loop.simps) simp
next
  case (Suc n)
  then have i: "i < length A" by simp
  define A' where "A' = compare_step A i"
  have len: "length A' = length A" by (simp add: A'_def compare_step_def)
  have "same_core (A' ! j) (A ! j)" if "j < length A" for j
  proof (cases "j = i")
    case True
    with that show ?thesis by (simp add: A'_def compare_step_def with_changes_core)
  next
    case False
    with that show ?thesis by (simp add: A'_def compare_step_def same_core_refl)
  qed
  then have rel: "list_all2 same_core A' A"
    unfolding list_all2_conv_all_nth len by simp
  have n: "n = length A' - Suc i" "Suc i \<le> length A'" using Suc.hyps(2) i len by simp_all
  have "comparative_loop i A = comparative_loop (Suc i) A'"
    using i by (subst comparative_loop.simps) (simp add: A'_def)
  also have "\<dots> = take (Suc i) A' @ map (with_changes A') (drop (Suc i) A')"
    by (rule Suc.hyps(1) [OF n])
  also have "map (with_changes A') (drop (Suc i) A') = map (with_changes A) (drop (Suc i) A')"
    using with_changes_cong [OF rel] by simp
  also have "drop (Suc i) A' = drop (Suc i) A" by (simp add: A'_def compare_step_def)
  also have "take (Suc i) A' = take i A @ [with_changes A (A ! i)]"
    using i by (simp add: A'_def compare_step_def take_Suc_conv_app_nth)
  finally show ?case using i by (simp add: Cons_nth_drop_Suc [symmetric])
qed

lemma comparative_loop_map: "comparative_loop 0 A = map (with_changes A) A"
  using comparative_loop_from [of 0 A] by simp


lemma location_months_nth:
  "j < 64 \<Longrightarrow> location_months tz l rs ! j =
     generateMonthlyFinancialData tz (month_date j) l (advance (53 * j) rs)"
  by (simp add: location_months_def del: upt_Suc)

lemma length_location_months: "length (location_months tz l rs) = 64"
  by (simp add: location_months_def del: upt_Suc)

lemma location_months_mem:
  "r \<in> set (location_months tz l rs) \<longleftrightarrow>
     (\<exists>j<64. r = generateMonthlyFinancialData tz (month_date j) l (advance (53 * j) rs))"
  by (auto simp: location_months_def simp del: upt_Suc)

lemma location_months_sorted:
  "sorted_wrt (\<lambda>a b. compare_records a b \<le> 0) (location_months tz l rs)"
  unfolding sorted_wrt_iff_nth_less length_location_months
proof (intro allI impI)
  fix i j :: nat
  assume ij: "i < j" "j < 64"
  then have i: "i < 64" by simp
  from first_day_mono [of i j] ij have "first_day i \<le> first_day j" by simp
  then show "compare_records (location_months tz l rs ! i) (location_months tz l rs ! j) \<le> 0"
    by (simp add: location_months_nth ij i compare_records_def gm_keys formatDate_month_date)
qed

lemma compare_other_location:
  assumes "a \<in> set (location_months tz l rs)" "b \<in> set (location_months tz l' rs')"
    "loc_id l < loc_id l'"
  shows "compare_records a b \<le> 0"
  using assms by (auto simp: location_months_mem compare_records_def gm_keys localeCompare_def)

lemma loc_ids: "loc_id LOC001 = ''LOC001''" "loc_id LOC002 = ''LOC002''" "loc_id LOC003 = ''LOC003''"
  by (simp_all add: LOC001_def LOC002_def LOC003_def)

lemma loc_id_order: "loc_id LOC001 < loc_id LOC002" "loc_id LOC002 < loc_id LOC003"
  "loc_id LOC001 < loc_id LOC003"
  by (simp_all add: loc_ids)

lemma unsorted_dataset_sorted:
  "sorted_wrt (\<lambda>a b. compare_records a b \<le> 0) (unsorted_dataset tz rs)"
  unfolding unsorted_dataset_def sorted_wrt_append
  using compare_other_location loc_id_order
  by (auto simp: location_months_sorted)

lemma dataset_shape:
  "generateFinancialDataset tz rs =
     map (with_changes (unsorted_dataset tz rs)) (unsorted_dataset tz rs)"
  unfolding generateFinancialDataset_def Let_def location_loop_locations
    unsorted_dataset_def [symmetric]
  by (simp only: js_sort_sorted [OF unsorted_dataset_sorted] comparative_loop_map)

subsection \<open>Bounds on the generated amounts\<close>

lemma rfb_bounds:
  assumes "0 \<le> u" "u < 1" "mn \<le> mx"
  shows "real_of_int (js_round (mn * 100)) / 100 \<le> randomFloatBetween mn mx u"
    and "randomFloatBetween mn mx u \<le> real_of_int (js_round (mx * 100)) / 100"
proof -
  define v where "v = u * (mx - mn) + mn"
  from assms have d: "0 \<le> mx - mn" by simp
  with assms(1) have "0 \<le> u * (mx - mn)" by simp
  then have lo: "mn \<le> v" by (simp add: v_def)
  from mult_right_mono [of u 1 "mx - mn"] assms(2) d have "u * (mx - mn) \<le> mx - mn" by simp
  then have hi: "v \<le> mx" by (simp add: v_def)
  have eq: "randomFloatBetween mn mx u = real_of_int (js_round (v * 100)) / 100"
    by (simp add: randomFloatBetween_def Let_def v_def)
  from lo have "js_round (mn * 100) \<le> js_round (v * 100)" by (intro js_round_mono) simp
  then show "real_of_int (js_round (mn * 100)) / 100 \<le> randomFloatBetween mn mx u"
    unfolding eq by (simp add: divide_right_mono)
  from hi have "js_round (v * 100) \<le> js_round (mx * 100)" by (intro js_round_mono) simp
  then show "randomFloatBetween mn mx u \<le> real_of_int (js_round (mx * 100)) / 100"
    unfolding eq by (simp add: divide_right_mono)
qed

lemma rfb_range:
  assumes "0 \<le> u" "u < 1"
  shows "17 / 20 \<le> randomFloatBetween 0.85 0.95 u" "21 / 20 \<le> randomFloatBetween 1.05 1.15 u"
    "9 / 10 \<le> randomFloatBetween 0.9 1.1 u" "19 / 20 \<le> randomFloatBetween 0.95 1.05 u"
    "17 / 20 \<le> randomFloatBetween 0.85 1.15 u" "randomFloatBetween 0.85 1.15 u \<le> 23 / 20"
    "3 / 10 \<le> randomFloatBetween 0.3 0.5 u" "3 / 5 \<le> randomFloatBetween 0.6 0.8 u"
    "randomFloatBetween 0.18 0.22 u \<le> 22 / 100" "randomFloatBetween 0.06 0.10 u \<le> 10 / 100"
    "randomFloatBetween 0.05 0.08 u \<le> 8 / 100" "randomFloatBetween 0.01 0.02 u \<le> 2 / 100"
    "randomFloatBetween 0.98 1.02 u \<le> 102 / 100" "randomFloatBetween 0.01 0.03 u \<le> 3 / 100"
    "randomFloatBetween 0.03 0.05 u \<le> 5 / 100" "randomFloatBetween 0.03 0.07 u \<le> 7 / 100"
    "randomFloatBetween 0.02 0.04 u \<le> 4 / 100" "randomFloatBetween 0.005 0.015 u \<le> 2 / 100"
  using rfb_bounds(1) [OF assms, of "0.85" "0.95"] rfb_bounds(1) [OF assms, of "1.05" "1.15"]
    rfb_bounds(1) [OF assms, of "0.9" "1.1"] rfb_bounds(1) [OF assms, of "0.95" "1.05"]
    rfb_bounds [OF assms, of "0.85" "1.15"]
    rfb_bounds(1) [OF assms, of "0.3" "0.5"] rfb_bounds(1) [OF assms, of "0.6" "0.8"]
    rfb_bounds(2) [OF assms, of "0.18" "0.22"] rfb_bounds(2) [OF assms, of "0.06" "0.10"]
    rfb_bounds(2) [OF assms, of "0.05" "0.08"] rfb_bounds(2) [OF assms, of "0.01" "0.02"]
    rfb_bounds(2) [OF assms, of "0.98" "1.02"] rfb_bounds(2) [OF assms, of "0.01" "0.03"]
    rfb_bounds(2) [OF assms, of "0.03" "0.05"] rfb_bounds(2) [OF assms, of "0.03" "0.07"]
    rfb_bounds(2) [OF assms, of "0.02" "0.04"] rfb_bounds(2) [OF assms, of "0.005" "0.015"]
  by (simp_all add: js_round_def)

lemma seasonal_min: "0 \<le> u \<Longrightarrow> u < 1 \<Longrightarrow> 17 / 20 \<le> getSeasonalFactor d u"
  using rfb_range(1-4) [of u] by (auto simp: getSeasonalFactor_def Let_def)

lemma years_nonneg:
  assumes "l \<in> set locations"
  shows "0 \<le> yearsSinceOpening tz (month_date j) l"
proof -
  from assms consider "l = LOC001" | "l = LOC002" | "l = LOC003"
    by (auto simp: locations_def)
  then have "fst (opened_date l) \<le> 2019 \<and> fst (snd (opened_date l)) \<le> 12"
    by cases (simp_all add: LOC001_def LOC002_def LOC003_def)
  then have o: "fst (opened_date l) \<le> 2019" "fst (snd (opened_date l)) \<le> 12" by simp_all
  have y: "yearsSinceOpening tz (month_date j) l =
      real_of_int (2020 + int (j div 12) - fst (opened_date l))
        + real_of_int (int (j mod 12) - (fst (snd (opened_date l)) - 1)) / 12"
    by (simp add: yearsSinceOpening_def Let_def open_fields [OF assms] month_date_def
          Date_local_def)
  define a where "a = real_of_int (2020 + int (j div 12) - fst (opened_date l))"
  define b where "b = real_of_int (int (j mod 12) - (fst (snd (opened_date l)) - 1))"
  from o have "1 \<le> a" by (simp add: a_def)
  moreover from o have "- 11 \<le> b" by (simp add: b_def)
  ultimately have "0 \<le> a + b / 12" by simp
  then show ?thesis unfolding y a_def b_def .
qed

lemma growth_min:
  assumes "l \<in> set locations" "0 \<le> u" "u < 1"
  shows "1 \<le> getGrowthFactor tz (month_date j) l u"
proof -
  define y where "y = yearsSinceOpening tz (month_date j) l"
  define r where "r = randomFloatBetween 0.9 1.1 u"
  have y: "0 \<le> y" unfolding y_def by (rule years_nonneg [OF assms(1)])
  have r: "0 \<le> r" using rfb_range(3) [OF assms(2,3)] by (simp add: r_def)
  have g: "getGrowthFactor tz (month_date j) l u =
      (if y < 2 then 1 + (y * 0.2) * r
       else if y < 4 then 1 + (0.4 + ((y - 2) * 0.12) * r)
       else 1 + (0.64 + ((y - 4) * 0.055) * r))"
    by (simp add: getGrowthFactor_def Let_def y_def r_def)
  have "0 \<le> (y * 0.2) * r" using y r by simp
  moreover have "0 \<le> ((y - 2) * 0.12) * r" if "\<not> y < 2" using that r by simp
  moreover have "0 \<le> ((y - 4) * 0.055) * r" if "\<not> y < 4" using that r by simp
  ultimately show ?thesis unfolding g by auto
qed


lemma baseRevenue_min:
  assumes "l \<in> set locations" "0 \<le> u" "u < 1"
  shows "100000 \<le> baseRevenue l u" "13 * monthly_rent l \<le> baseRevenue l u"
    "0 \<le> monthly_rent l"
proof -
  note a = randomBetween_bounds(1) [OF assms(2,3), of 180000 220000]
  note b = randomBetween_bounds(1) [OF assms(2,3), of 140000 170000]
  note c = randomBetween_bounds(1) [OF assms(2,3), of 100000 130000]
  from assms(1) consider "l = LOC001" | "l = LOC002" | "l = LOC003"
    by (auto simp: locations_def)
  then have "100000 \<le> baseRevenue l u \<and> 13 * monthly_rent l \<le> baseRevenue l u \<and>
      0 \<le> monthly_rent l"
    using a b c by cases (simp_all add: baseRevenue_def LOC001_def LOC002_def LOC003_def)
  then show "100000 \<le> baseRevenue l u" "13 * monthly_rent l \<le> baseRevenue l u"
    "0 \<le> monthly_rent l"
    by simp_all
qed

lemma totalRevenue_min:
  assumes "l \<in> set locations" "unit_draws rs"
  shows "85000 \<le> totalRevenue tz (month_date j) l rs"
    and "7 * monthly_rent l \<le> totalRevenue tz (month_date j) l rs"
proof -
  define b where "b = real_of_int (baseRevenue l (rs 2))"
  define s where "s = getSeasonalFactor (month_date j) (rs 0)"
  define g where "g = getGrowthFactor tz (month_date j) l (rs 1)"
  define P where "P = b * s * g"
  note u = unit_drawsD [OF assms(2)]
  from baseRevenue_min(1,2) [OF assms(1) u, of 2] baseRevenue_min(3) [OF assms(1) u]
  have b: "100000 \<le> b" "13 * real_of_int (monthly_rent l) \<le> b"
    "0 \<le> real_of_int (monthly_rent l)"
    unfolding b_def by linarith+
  have s: "17 / 20 \<le> s" unfolding s_def by (rule seasonal_min [OF u])
  have g: "1 \<le> g" unfolding g_def by (rule growth_min [OF assms(1) u])
  have T: "totalRevenue tz (month_date j) l rs = js_round (b * s * g)"
    by (simp add: totalRevenue_def b_def s_def g_def)
  from b(1) s have bs: "0 \<le> b * s" by simp
  have "b * (17 / 20) \<le> b * s" using b(1) s by (intro mult_left_mono) simp_all
  also have "\<dots> = b * s * 1" by simp
  also have "\<dots> \<le> b * s * g" using bs g by (intro mult_left_mono) simp_all
  finally have "b * (17 / 20) \<le> b * s * g" .
  then have x: "17 / 20 * b \<le> P" by (simp add: P_def mult.commute)
  from b(1) x have "85000 \<le> P" by linarith
  then have "85000 \<le> b * s * g" by (simp add: P_def)
  then have "js_round 85000 \<le> js_round (b * s * g)" by (rule js_round_mono)
  then show "85000 \<le> totalRevenue tz (month_date j) l rs"
    unfolding T by (simp add: js_round_def)
  from b(2,3) x have "7 * real_of_int (monthly_rent l) \<le> P" by linarith
  then have "real_of_int (7 * monthly_rent l) \<le> b * s * g" by (simp add: P_def)
  then have "js_round (real_of_int (7 * monthly_rent l)) \<le> js_round (b * s * g)"
    by (rule js_round_mono)
  then show "7 * monthly_rent l \<le> totalRevenue tz (month_date j) l rs"
    unfolding T js_round_of_int .
qed

lemma js_round_ge:
  assumes "real_of_int n \<le> x"
  shows "n \<le> js_round x"
  using js_round_mono [OF assms] by (simp add: js_round_of_int)

lemma funnel_positive:
  assumes "l \<in> set locations" "unit_draws rs"
  shows "283 \<le> numberOfProcedures tz (month_date j) l rs"
    and "198 \<le> patientVisits tz (month_date j) l rs"
    and "59 \<le> treatmentPlansPresented tz (month_date j) l rs"
    and "35 \<le> treatmentPlansAccepted tz (month_date j) l rs"
proof -
  let ?d = "month_date j"
  define T where "T = real_of_int (totalRevenue tz ?d l rs)"
  define q where "q = real_of_int (randomBetween 200 300 (rs 37))"
  note u = unit_drawsD [OF assms(2)]
  from totalRevenue_min(1) [OF assms, of tz j] have T: "85000 \<le> T" by (simp add: T_def)
  from randomBetween_bounds [OF u, of 200 300 37] have q: "200 \<le> q" "q \<le> 300"
    by (simp_all add: q_def)
  define w where "w = T / q"
  have "85000 / 300 \<le> T / q" using T q by (intro frac_le) simp_all
  then have "850 / 3 \<le> w" by (simp add: w_def)
  then have "283 \<le> w" by linarith
  then have "real_of_int 283 \<le> T / q" by (simp add: w_def)
  then have np: "283 \<le> js_round (T / q)" by (rule js_round_ge)
  then show n: "283 \<le> numberOfProcedures tz ?d l rs"
    by (simp add: numberOfProcedures_def T_def q_def)
  then have "real_of_int 198 \<le> real_of_int (numberOfProcedures tz ?d l rs) * 0.7" by simp
  then show v: "198 \<le> patientVisits tz ?d l rs"
    unfolding patientVisits_def by (rule js_round_ge)
  define f where "f = randomFloatBetween 0.3 0.5 (rs 50)"
  have f: "3 / 10 \<le> f" unfolding f_def by (rule rfb_range(7) [OF u])
  from v have "198 \<le> real_of_int (patientVisits tz ?d l rs)" by simp
  with f have "198 * (3 / 10) \<le> real_of_int (patientVisits tz ?d l rs) * f"
    by (intro mult_mono) simp_all
  then have "real_of_int 59 \<le> real_of_int (patientVisits tz ?d l rs) * f" by simp
  then show p: "59 \<le> treatmentPlansPresented tz ?d l rs"
    unfolding treatmentPlansPresented_def f_def by (rule js_round_ge)
  define h where "h = randomFloatBetween 0.6 0.8 (rs 51)"
  have h: "3 / 5 \<le> h" unfolding h_def by (rule rfb_range(8) [OF u])
  from p have "59 \<le> real_of_int (treatmentPlansPresented tz ?d l rs)" by simp
  with h have "59 * (3 / 5) \<le> real_of_int (treatmentPlansPresented tz ?d l rs) * h"
    by (intro mult_mono) simp_all
  then have "real_of_int 35 \<le> real_of_int (treatmentPlansPresented tz ?d l rs) * h" by simp
  then show "35 \<le> treatmentPlansAccepted tz ?d l rs"
    unfolding treatmentPlansAccepted_def h_def by (rule js_round_ge)
qed

lemma set_changes_fields:
  "Location_ID (set_changes m y c) = Location_ID c"
  "Year (set_changes m y c) = Year c"
  "Month (set_changes m y c) = Month c"
  "Period (set_changes m y c) = Period c"
  "Total_Revenue (set_changes m y c) = Total_Revenue c"
  "EBITDA (set_changes m y c) = EBITDA c"
  "Total_Patient_Visits (set_changes m y c) = Total_Patient_Visits c"
  "Treatment_Plans_Presented (set_changes m y c) = Treatment_Plans_Presented c"
  "Treatment_Plans_Accepted (set_changes m y c) = Treatment_Plans_Accepted c"
  "Treatment_Plans_Completed (set_changes m y c) = Treatment_Plans_Completed c"
  "Revenue_Per_Patient (set_changes m y c) = Revenue_Per_Patient c"
  "Case_Acceptance_Rate (set_changes m y c) = Case_Acceptance_Rate c"
  "Treatment_Completion_Rate (set_changes m y c) = Treatment_Completion_Rate c"
  by (cases m; cases y; simp add: set_changes_def split: prod.splits)+

lemma with_changes_fields:
  "Location_ID (with_changes A c) = Location_ID c"
  "Year (with_changes A c) = Year c"
  "Month (with_changes A c) = Month c"
  "Period (with_changes A c) = Period c"
  "Total_Revenue (with_changes A c) = Total_Revenue c"
  "EBITDA (with_changes A c) = EBITDA c"
  "Total_Patient_Visits (with_changes A c) = Total_Patient_Visits c"
  "Treatment_Plans_Presented (with_changes A c) = Treatment_Plans_Presented c"
  "Treatment_Plans_Accepted (with_changes A c) = Treatment_Plans_Accepted c"
  "Treatment_Plans_Completed (with_changes A c) = Treatment_Plans_Completed c"
  "Revenue_Per_Patient (with_changes A c) = Revenue_Per_Patient c"
  "Case_Acceptance_Rate (with_changes A c) = Case_Acceptance_Rate c"
  "Treatment_Completion_Rate (with_changes A c) = Treatment_Completion_Rate c"
  unfolding with_changes_alt by (rule set_changes_fields)+

lemma gm_funnel:
  "Total_Revenue (generateMonthlyFinancialData tz d l rs) = totalRevenue tz d l rs"
  "Total_Patient_Visits (generateMonthlyFinancialData tz d l rs) = patientVisits tz d l rs"
  "Treatment_Plans_Presented (generateMonthlyFinancialData tz d l rs) = treatmentPlansPresented tz d l rs"
  "Treatment_Plans_Accepted (generateMonthlyFinancialData tz d l rs) = treatmentPlansAccepted tz d l rs"
  "Treatment_Plans_Completed (generateMonthlyFinancialData tz d l rs) = treatmentPlansCompleted tz d l rs"
  "Revenue_Per_Patient (generateMonthlyFinancialData tz d l rs) =
     toFixed 2 (js_div (real_of_int (totalRevenue tz d l rs)) (real_of_int (patientVisits tz d l rs)))"
  "Case_Acceptance_Rate (generateMonthlyFinancialData tz d l rs) =
     toFixed 4 (js_div (real_of_int (treatmentPlansAccepted tz d l rs))
                  (real_of_int (treatmentPlansPresented tz d l rs)))"
  "Treatment_Completion_Rate (generateMonthlyFinancialData tz d l rs) =
     toFixed 4 (js_div (real_of_int (treatmentPlansCompleted tz d l rs))
                  (real_of_int (treatmentPlansAccepted tz d l rs)))"
  "EBITDA (generateMonthlyFinancialData tz d l rs) = totalRevenue tz d l rs - totalExpenses tz d l rs"
  by (simp_all add: generateMonthlyFinancialData_def Let_def)

lemma unsorted_record:
  assumes "c \<in> set (unsorted_dataset tz rs)"
  obtains l j k where "l \<in> set locations" "j < 64"
    "c = generateMonthlyFinancialData tz (month_date j) l (advance k rs)"
proof -
  have in1: "LOC001 \<in> set locations" and in2: "LOC002 \<in> set locations"
    and in3: "LOC003 \<in> set locations" by (simp_all add: locations_def)
  from assms in1 in2 in3 that show thesis
    unfolding unsorted_dataset_def by (auto simp: location_months_mem advance_advance)
qed

lemma dataset_record:
  assumes "r \<in> set (generateFinancialDataset tz rs)"
  obtains l j k where "l \<in> set locations" "j < 64"
    "r = with_changes (unsorted_dataset tz rs)
           (generateMonthlyFinancialData tz (month_date j) l (advance k rs))"
    "generateMonthlyFinancialData tz (month_date j) l (advance k rs) \<in> set (unsorted_dataset tz rs)"
proof -
  from assms obtain c where c: "c \<in> set (unsorted_dataset tz rs)"
    and r: "r = with_changes (unsorted_dataset tz rs) c"
    unfolding dataset_shape by auto
  from c obtain l j k where "l \<in> set locations" "j < 64"
    "c = generateMonthlyFinancialData tz (month_date j) l (advance k rs)"
    by (rule unsorted_record)
  with r c that show thesis by blast
qed

lemma first_record_in_dataset:
  "with_changes (unsorted_dataset tz rs) (generateMonthlyFinancialData tz (month_date 0) LOC001 rs)
     \<in> set (generateFinancialDataset tz rs)"
proof -
  have "generateMonthlyFinancialData tz (month_date 0) LOC001 (advance (53 * 0) rs)
      \<in> set (location_months tz LOC001 rs)"
    unfolding location_months_mem by (intro exI [of _ 0]) simp
  then have "generateMonthlyFinancialData tz (month_date 0) LOC001 rs \<in> set (unsorted_dataset tz rs)"
    by (simp add: unsorted_dataset_def advance_0)
  then show ?thesis unfolding dataset_shape by simp
qed

text \<open>
  Claim C9. In every record of the monthly dataset the total revenue is at least 85000
  (the lowest base revenue 100000 times the lowest seasonal factor 0.85 times a growth
  factor of at least 1), so the numbers of patient visits, of treatment plans presented
  and of treatment plans accepted are positive, for all draws; the three quotients that
  divide by them are therefore numbers, never the result of a division by zero.
\<close>

theorem funnel_counts_positive:
  assumes "unit_draws rs" and "r \<in> set (generateFinancialDataset tz rs)"
  shows "85000 \<le> Total_Revenue r \<and> 0 < Total_Patient_Visits r \<and>
         0 < Treatment_Plans_Presented r \<and> 0 < Treatment_Plans_Accepted r \<and>
         Revenue_Per_Patient r =
           toFixed 2 (Number (real_of_int (Total_Revenue r) / real_of_int (Total_Patient_Visits r))) \<and>
         Case_Acceptance_Rate r =
           toFixed 4 (Number (real_of_int (Treatment_Plans_Accepted r)
                                / real_of_int (Treatment_Plans_Presented r))) \<and>
         Treatment_Completion_Rate r =
           toFixed 4 (Number (real_of_int (Treatment_Plans_Completed r)
                                / real_of_int (Treatment_Plans_Accepted r)))"
proof -
  from assms(2) obtain l j k where l: "l \<in> set locations"
    and r: "r = with_changes (unsorted_dataset tz rs)
                  (generateMonthlyFinancialData tz (month_date j) l (advance k rs))"
    by (rule dataset_record)
  have u: "unit_draws (advance k rs)" by (rule unit_draws_advance [OF assms(1)])
  note T = totalRevenue_min(1) [OF l u, of tz j]
  note f = funnel_positive [OF l u, of tz j]
  from T f show ?thesis
    unfolding r with_changes_fields gm_funnel js_div_def by (simp del: toFixed.simps)
qed


lemma sample_totalRevenue: "totalRevenue 0 (month_date 0) LOC001 (\<lambda>_. 0) = 257231"
  by (simp add: totalRevenue_def baseRevenue_def LOC001_def getSeasonalFactor_def
        getGrowthFactor_def yearsSinceOpening_def Date_parse_def month_date_def Date_local_def
        randomFloatBetween_def randomBetween_def js_round_def Let_def)

lemma sample_patientVisits: "patientVisits 0 (month_date 0) LOC001 (\<lambda>_. 0) = 900"
  by (simp add: patientVisits_def numberOfProcedures_def sample_totalRevenue randomBetween_def
        js_round_def)

theorem funnel_counts_positive_witness:
  "\<exists>r. r \<in> set (generateFinancialDataset 0 (\<lambda>_. 0)) \<and> Total_Revenue r = 257231 \<and>
     Total_Patient_Visits r = 900 \<and> 0 < Treatment_Plans_Presented r \<and>
     0 < Treatment_Plans_Accepted r \<and>
     Revenue_Per_Patient r = toFixed 2 (Number (257231 / 900))"
proof -
  let ?rs = "\<lambda>_::nat. 0::real"
  define r where "r = with_changes (unsorted_dataset 0 ?rs)
      (generateMonthlyFinancialData 0 (month_date 0) LOC001 ?rs)"
  have mem: "r \<in> set (generateFinancialDataset 0 ?rs)"
    unfolding r_def by (rule first_record_in_dataset)
  have T: "Total_Revenue r = 257231"
    unfolding r_def with_changes_fields gm_funnel by (rule sample_totalRevenue)
  have V: "Total_Patient_Visits r = 900"
    unfolding r_def with_changes_fields gm_funnel by (rule sample_patientVisits)
  from funnel_counts_positive [OF unit_draws_zero mem] mem T V show ?thesis
    by (intro exI [of _ r]) (simp del: toFixed.simps)
qed

subsection \<open>Category and payor columns\<close>








lemma categoryWeights_complete: "set serviceCategories \<subseteq> fst ` set categoryWeights"
  by (simp add: serviceCategories_def categoryWeights_def)


































subsection \<open>One record for each month\<close>






lemma location_months_full_keys:
  "map (\<lambda>r. (Location_ID r, Year r, Month r)) (map (with_changes A) (location_months tz l rs)) =
     map (\<lambda>j. (loc_id l, 2020 + int (j div 12), int (j mod 12) + 1)) [0..<64]"
  unfolding location_months_def
  by (simp add: comp_def with_changes_fields gm_keys month_date_def Date_local_def
        del: upt_Suc)

lemma month_pair_inj: "inj_on (\<lambda>j::nat. (a, 2020 + int (j div 12), int (j mod 12) + 1)) S"
proof (rule inj_onI)
  fix x y :: nat
  assume "(a, 2020 + int (x div 12), int (x mod 12) + 1) = (a, 2020 + int (y div 12), int (y mod 12) + 1)"
  then have "x div 12 = y div 12" "x mod 12 = y mod 12" by simp_all
  then show "x = y" by (metis div_mult_mod_eq)
qed

lemma dataset_keys_distinct:
  "distinct (map (\<lambda>r. (Location_ID r, Year r, Month r)) (generateFinancialDataset tz rs))"
proof -
  have d: "distinct (map (\<lambda>j::nat. (a, 2020 + int (j div 12), int (j mod 12) + 1)) [0..<64])"
    for a :: string
    by (simp only: distinct_map distinct_upt month_pair_inj simp_thms)
  show ?thesis
    unfolding dataset_shape unsorted_dataset_def map_append location_months_full_keys
    by (simp only: distinct_append d simp_thms) (auto simp: loc_ids)
qed






subsection \<open>The comparative metrics\<close>

lemma toFixed_close: "\<exists>y. toFixed 4 (Number x) = Number y \<and> \<bar>y - x\<bar> \<le> 1 / 20000"
proof -
  define n where "n = real_of_int \<lfloor>\<bar>x\<bar> * 10 ^ 4 + 1 / 2\<rfloor>"
  have n: "\<bar>x\<bar> * 10000 - 1 / 2 < n" "n \<le> \<bar>x\<bar> * 10000 + 1 / 2"
    unfolding n_def by (simp; linarith)+
  have y: "toFixed 4 (Number x) = Number (sgn x * n / 10 ^ 4)" by (simp add: n_def)
  consider "x = 0" | "0 < x" | "x < 0" by linarith
  then have "\<bar>sgn x * n / 10 ^ 4 - x\<bar> \<le> 1 / 20000"
  proof cases
    case 1
    then show ?thesis by simp
  next
    case 2
    with n have "x * 10000 - 1 / 2 < n" "n \<le> x * 10000 + 1 / 2" by simp_all
    then have "\<bar>n / 10000 - x\<bar> \<le> 1 / 20000" by linarith
    with 2 show ?thesis by simp
  next
    case 3
    with n have "- x * 10000 - 1 / 2 < n" "n \<le> - x * 10000 + 1 / 2" by simp_all
    then have "\<bar>- n / 10000 - x\<bar> \<le> 1 / 20000" by linarith
    with 3 show ?thesis by simp
  qed
  with y show ?thesis by blast
qed

lemma change_close:
  assumes "prev \<noteq> 0"
  shows "close_to (change cur prev) ((real_of_int cur - real_of_int prev) / real_of_int prev)"
proof -
  from toFixed_close [of "(real_of_int cur - real_of_int prev) / real_of_int prev"]
  obtain y where "toFixed 4 (Number ((real_of_int cur - real_of_int prev) / real_of_int prev)) = Number y"
    "\<bar>y - (real_of_int cur - real_of_int prev) / real_of_int prev\<bar> \<le> 1 / 20000" by blast
  with assms show ?thesis
    by (simp add: change_def js_div_def close_to_def del: toFixed.simps)
qed

lemma expense_term:
  assumes "0 \<le> t" "f \<le> m"
  shows "real_of_int (js_round (t * f)) \<le> t * m + 1 / 2"
proof -
  have "t * f \<le> t * m" by (rule mult_left_mono [OF assms(2) assms(1)])
  with js_round_upper [of "t * f"] show ?thesis by linarith
qed

lemma totalExpenses_bound:
  assumes "unit_draws rs" "0 \<le> totalRevenue tz d l rs" "0 \<le> monthly_rent l"
  shows "real_of_int (totalExpenses tz d l rs)
           \<le> 85 / 100 * real_of_int (totalRevenue tz d l rs)
               + 102 / 100 * real_of_int (monthly_rent l) + 15 / 2"
proof -
  define t where "t = real_of_int (totalRevenue tz d l rs)"
  define q where "q = real_of_int (monthly_rent l)"
  from assms have t: "0 \<le> t" and q: "0 \<le> q" by (simp_all add: t_def q_def)
  note u = unit_drawsD [OF assms(1)]
  note r = rfb_range [OF u]
  note e = expense_term [OF t] expense_term [OF q]
  have "real_of_int (totalExpenses tz d l rs) =
      real_of_int (js_round (t * randomFloatBetween 0.18 0.22 (rs 13)))
      + real_of_int (js_round (t * randomFloatBetween 0.06 0.10 (rs 14)))
      + real_of_int (js_round (t * randomFloatBetween 0.05 0.08 (rs 15)))
      + real_of_int (js_round (t * randomFloatBetween 0.01 0.02 (rs 16)))
      + real_of_int (js_round (q * randomFloatBetween 0.98 1.02 (rs 17)))
      + real_of_int (js_round (t * randomFloatBetween 0.01 0.03 (rs 18)))
      + real_of_int (js_round (t * randomFloatBetween 0.03 0.05 (rs 19)))
      + real_of_int (js_round (t * randomFloatBetween 0.03 0.07 (rs 20)))
      + real_of_int (js_round (t * randomFloatBetween 0.02 0.04 (rs 21)))
      + real_of_int (js_round (t * randomFloatBetween 0.02 0.04 (rs 22)))
      + real_of_int (js_round (t * randomFloatBetween 0.005 0.015 (rs 23)))
      + real_of_int (js_round (t * randomFloatBetween 0.06 0.10 (rs 24)))
      + real_of_int (js_round (t * randomFloatBetween 0.01 0.03 (rs 25)))
      + real_of_int (js_round (t * randomFloatBetween 0.005 0.015 (rs 26)))
      + real_of_int (js_round (t * randomFloatBetween 0.01 0.03 (rs 27)))"
    unfolding totalExpenses_def expenseData_def Let_def t_def q_def by simp
  also have "\<dots> \<le> (t * (22 / 100) + 1 / 2) + (t * (10 / 100) + 1 / 2) + (t * (8 / 100) + 1 / 2)
      + (t * (2 / 100) + 1 / 2) + (q * (102 / 100) + 1 / 2) + (t * (3 / 100) + 1 / 2)
      + (t * (5 / 100) + 1 / 2) + (t * (7 / 100) + 1 / 2) + (t * (4 / 100) + 1 / 2)
      + (t * (4 / 100) + 1 / 2) + (t * (2 / 100) + 1 / 2) + (t * (10 / 100) + 1 / 2)
      + (t * (3 / 100) + 1 / 2) + (t * (2 / 100) + 1 / 2) + (t * (3 / 100) + 1 / 2)"
    by (intro add_mono e(1) e(2) r(9-18))
  also have "\<dots> = 85 / 100 * t + 102 / 100 * q + 15 / 2" by simp
  finally show ?thesis unfolding t_def q_def .
qed


lemma ebitda_positive:
  assumes "l \<in> set locations" "unit_draws rs"
  shows "0 < totalRevenue tz (month_date j) l rs - totalExpenses tz (month_date j) l rs"
proof -
  define t where "t = real_of_int (totalRevenue tz (month_date j) l rs)"
  define q where "q = real_of_int (monthly_rent l)"
  define x where "x = real_of_int (totalExpenses tz (month_date j) l rs)"
  note T = totalRevenue_min [OF assms, of tz j]
  note b = baseRevenue_min(3) [OF assms(1) unit_drawsD [OF assms(2), of 0]]
  from T have t: "85000 \<le> t" "7 * q \<le> t" unfolding t_def q_def by linarith+
  from b have q: "0 \<le> q" by (simp add: q_def)
  from T(1) have "0 \<le> totalRevenue tz (month_date j) l rs" by simp
  from totalExpenses_bound [OF assms(2) this b]
  have "x \<le> 85 / 100 * t + 102 / 100 * q + 15 / 2" unfolding x_def t_def q_def .
  with t q have "x < t" by linarith
  then show ?thesis unfolding x_def t_def by linarith
qed

lemma set_changes_deltas:
  "Revenue_MoM_Change (set_changes m y c) =
     (case m of Some (t, e) \<Rightarrow> change (Total_Revenue c) t | None \<Rightarrow> Revenue_MoM_Change c)"
  "EBITDA_MoM_Change (set_changes m y c) =
     (case m of Some (t, e) \<Rightarrow> change (EBITDA c) e | None \<Rightarrow> EBITDA_MoM_Change c)"
  "Revenue_YoY_Change (set_changes m y c) =
     (case y of Some (t, e) \<Rightarrow> change (Total_Revenue c) t | None \<Rightarrow> Revenue_YoY_Change c)"
  "EBITDA_YoY_Change (set_changes m y c) =
     (case y of Some (t, e) \<Rightarrow> change (EBITDA c) e | None \<Rightarrow> EBITDA_YoY_Change c)"
  by (cases m; cases y; simp add: set_changes_def split: prod.splits)+

lemma gm_deltas:
  "Revenue_MoM_Change (generateMonthlyFinancialData tz d l rs) = Number 0"
  "EBITDA_MoM_Change (generateMonthlyFinancialData tz d l rs) = Number 0"
  "Revenue_YoY_Change (generateMonthlyFinancialData tz d l rs) = Number 0"
  "EBITDA_YoY_Change (generateMonthlyFinancialData tz d l rs) = Number 0"
  by (simp_all add: generateMonthlyFinancialData_def Let_def)

lemma unsorted_keys_distinct:
  "distinct (map (\<lambda>r. (Location_ID r, Year r, Month r)) (unsorted_dataset tz rs))"
  using dataset_keys_distinct [of tz rs]
  unfolding dataset_shape by (simp add: comp_def with_changes_fields)

lemma find_unique:
  assumes "distinct (map key xs)" "p \<in> set xs" "P p"
    "\<And>q. q \<in> set xs \<Longrightarrow> P q \<Longrightarrow> key q = key p"
  shows "find P xs = Some p"
proof -
  from assms(2,3) have "find P xs \<noteq> None" by (auto simp: find_None_iff)
  then obtain q where q: "find P xs = Some q" by blast
  then have "q \<in> set xs" "P q"
    by (auto simp: find_Some_iff) 
  with assms(4) have "key q = key p" by blast
  with assms(1,2) \<open>q \<in> set xs\<close> have "q = p"
    by (meson distinct_map inj_onD)
  with q show ?thesis by simp
qed

lemma prevMonth_unique:
  assumes "p \<in> set (unsorted_dataset tz rs)" "is_prev_month p c"
  shows "prevMonth_of (unsorted_dataset tz rs) c = Some p"
  unfolding prevMonth_of_def
proof (rule find_unique [where key = "\<lambda>r. (Location_ID r, Year r, Month r)"])
  show "distinct (map (\<lambda>r. (Location_ID r, Year r, Month r)) (unsorted_dataset tz rs))"
    by (rule unsorted_keys_distinct)
  show "p \<in> set (unsorted_dataset tz rs)" by (rule assms(1))
  show "is_prev_month p c" by (rule assms(2))
  fix q assume "is_prev_month q c"
  with assms(2) show "(Location_ID q, Year q, Month q) = (Location_ID p, Year p, Month p)"
    by (simp add: is_prev_month_def)
qed

lemma prevYear_unique:
  assumes "p \<in> set (unsorted_dataset tz rs)" "is_prev_year p c"
  shows "prevYear_of (unsorted_dataset tz rs) c = Some p"
  unfolding prevYear_of_def
proof (rule find_unique [where key = "\<lambda>r. (Location_ID r, Year r, Month r)"])
  show "distinct (map (\<lambda>r. (Location_ID r, Year r, Month r)) (unsorted_dataset tz rs))"
    by (rule unsorted_keys_distinct)
  show "p \<in> set (unsorted_dataset tz rs)" by (rule assms(1))
  show "is_prev_year p c" by (rule assms(2))
  fix q assume "is_prev_year q c"
  with assms(2) show "(Location_ID q, Year q, Month q) = (Location_ID p, Year p, Month p)"
    by (simp add: is_prev_year_def)
qed

lemma prev_none:
  "\<forall>p\<in>set A. \<not> is_prev_month p c \<Longrightarrow> prevMonth_of A c = None"
  "\<forall>p\<in>set A. \<not> is_prev_year p c \<Longrightarrow> prevYear_of A c = None"
  by (simp_all add: prevMonth_of_def prevYear_of_def find_None_iff)

lemma is_prev_with_changes:
  "is_prev_month (with_changes A p) (with_changes B c) = is_prev_month p c"
  "is_prev_year (with_changes A p) (with_changes B c) = is_prev_year p c"
  by (simp_all add: is_prev_month_def is_prev_year_def with_changes_fields)


lemma record_amounts_nonzero:
  assumes "unit_draws rs" "p \<in> set (unsorted_dataset tz rs)"
  shows "Total_Revenue p \<noteq> 0" "EBITDA p \<noteq> 0"
proof -
  from assms(2) obtain l j k where l: "l \<in> set locations"
    and p: "p = generateMonthlyFinancialData tz (month_date j) l (advance k rs)"
    by (rule unsorted_record)
  have u: "unit_draws (advance k rs)" by (rule unit_draws_advance [OF assms(1)])
  from totalRevenue_min(1) [OF l u, of tz j] show "Total_Revenue p \<noteq> 0"
    unfolding p gm_funnel by simp
  from ebitda_positive [OF l u, of tz j] show "EBITDA p \<noteq> 0"
    unfolding p gm_funnel by simp
qed

text \<open>
  Claim C4. After the comparative pass, a record that has a record of the same location
  for the previous calendar month (December of the year before for a January) holds, as
  its month-over-month changes of revenue and of EBITDA, the quotient (current -
  previous) / previous within \<open>10\<^sup>-\<^sup>4\<close>; the divisor is never 0. The same holds of the
  year-over-year changes and the record of the same location and month one year before.
  Where the dataset has no such record, the two changes keep their initial value 0.
\<close>

theorem comparative_changes:
  assumes "unit_draws rs" and "cur \<in> set (generateFinancialDataset tz rs)"
  shows "(\<forall>prev\<in>set (generateFinancialDataset tz rs). is_prev_month prev cur \<longrightarrow>
            Total_Revenue prev \<noteq> 0 \<and> EBITDA prev \<noteq> 0 \<and>
            close_to (Revenue_MoM_Change cur)
              ((real_of_int (Total_Revenue cur) - real_of_int (Total_Revenue prev))
                 / real_of_int (Total_Revenue prev)) \<and>
            close_to (EBITDA_MoM_Change cur)
              ((real_of_int (EBITDA cur) - real_of_int (EBITDA prev)) / real_of_int (EBITDA prev))) \<and>
         (\<forall>prev\<in>set (generateFinancialDataset tz rs). is_prev_year prev cur \<longrightarrow>
            Total_Revenue prev \<noteq> 0 \<and> EBITDA prev \<noteq> 0 \<and>
            close_to (Revenue_YoY_Change cur)
              ((real_of_int (Total_Revenue cur) - real_of_int (Total_Revenue prev))
                 / real_of_int (Total_Revenue prev)) \<and>
            close_to (EBITDA_YoY_Change cur)
              ((real_of_int (EBITDA cur) - real_of_int (EBITDA prev)) / real_of_int (EBITDA prev))) \<and>
         ((\<forall>prev\<in>set (generateFinancialDataset tz rs). \<not> is_prev_month prev cur) \<longrightarrow>
            Revenue_MoM_Change cur = Number 0 \<and> EBITDA_MoM_Change cur = Number 0) \<and>
         ((\<forall>prev\<in>set (generateFinancialDataset tz rs). \<not> is_prev_year prev cur) \<longrightarrow>
            Revenue_YoY_Change cur = Number 0 \<and> EBITDA_YoY_Change cur = Number 0)"
proof -
  let ?U = "unsorted_dataset tz rs"
  from assms(2) obtain l j k where
    cur: "cur = with_changes ?U (generateMonthlyFinancialData tz (month_date j) l (advance k rs))"
    by (rule dataset_record)
  define c where "c = generateMonthlyFinancialData tz (month_date j) l (advance k rs)"
  note cur = cur [folded c_def]
  have c0: "Revenue_MoM_Change c = Number 0" "EBITDA_MoM_Change c = Number 0"
    "Revenue_YoY_Change c = Number 0" "EBITDA_YoY_Change c = Number 0"
    unfolding c_def by (rule gm_deltas)+
  have ds: "set (generateFinancialDataset tz rs) = with_changes ?U ` set ?U"
    unfolding dataset_shape by simp
  have mom: "Total_Revenue prev \<noteq> 0 \<and> EBITDA prev \<noteq> 0 \<and>
            close_to (Revenue_MoM_Change cur)
              ((real_of_int (Total_Revenue cur) - real_of_int (Total_Revenue prev))
                 / real_of_int (Total_Revenue prev)) \<and>
            close_to (EBITDA_MoM_Change cur)
              ((real_of_int (EBITDA cur) - real_of_int (EBITDA prev)) / real_of_int (EBITDA prev))"
    if "prev \<in> set (generateFinancialDataset tz rs)" "is_prev_month prev cur" for prev
  proof -
    from that(1) obtain p where p: "p \<in> set ?U" "prev = with_changes ?U p"
      unfolding ds by blast
    from that(2) have "is_prev_month p c" unfolding p(2) cur is_prev_with_changes .
    from prevMonth_unique [OF p(1) this]
    have a: "amounts (prevMonth_of ?U c) = Some (Total_Revenue p, EBITDA p)"
      by (simp add: amounts_def)
    note nz = record_amounts_nonzero [OF assms(1) p(1)]
    have "Revenue_MoM_Change cur = change (Total_Revenue c) (Total_Revenue p)"
      "EBITDA_MoM_Change cur = change (EBITDA c) (EBITDA p)"
      unfolding cur with_changes_alt set_changes_deltas a by simp_all
    with nz change_close [OF nz(1), of "Total_Revenue c"] change_close [OF nz(2), of "EBITDA c"]
    show ?thesis unfolding p(2) cur with_changes_fields by simp
  qed
  have yoy: "Total_Revenue prev \<noteq> 0 \<and> EBITDA prev \<noteq> 0 \<and>
            close_to (Revenue_YoY_Change cur)
              ((real_of_int (Total_Revenue cur) - real_of_int (Total_Revenue prev))
                 / real_of_int (Total_Revenue prev)) \<and>
            close_to (EBITDA_YoY_Change cur)
              ((real_of_int (EBITDA cur) - real_of_int (EBITDA prev)) / real_of_int (EBITDA prev))"
    if "prev \<in> set (generateFinancialDataset tz rs)" "is_prev_year prev cur" for prev
  proof -
    from that(1) obtain p where p: "p \<in> set ?U" "prev = with_changes ?U p"
      unfolding ds by blast
    from that(2) have "is_prev_year p c" unfolding p(2) cur is_prev_with_changes .
    from prevYear_unique [OF p(1) this]
    have a: "amounts (prevYear_of ?U c) = Some (Total_Revenue p, EBITDA p)"
      by (simp add: amounts_def)
    note nz = record_amounts_nonzero [OF assms(1) p(1)]
    have "Revenue_YoY_Change cur = change (Total_Revenue c) (Total_Revenue p)"
      "EBITDA_YoY_Change cur = change (EBITDA c) (EBITDA p)"
      unfolding cur with_changes_alt set_changes_deltas a by simp_all
    with nz change_close [OF nz(1), of "Total_Revenue c"] change_close [OF nz(2), of "EBITDA c"]
    show ?thesis unfolding p(2) cur with_changes_fields by simp
  qed
  have nom: "Revenue_MoM_Change cur = Number 0 \<and> EBITDA_MoM_Change cur = Number 0"
    if "\<forall>prev\<in>set (generateFinancialDataset tz rs). \<not> is_prev_month prev cur"
  proof -
    from that have "\<forall>p\<in>set ?U. \<not> is_prev_month p c"
      unfolding ds cur by (simp add: is_prev_with_changes)
    from prev_none(1) [OF this] show ?thesis
      unfolding cur with_changes_alt set_changes_deltas by (simp add: amounts_def c0)
  qed
  have noy: "Revenue_YoY_Change cur = Number 0 \<and> EBITDA_YoY_Change cur = Number 0"
    if "\<forall>prev\<in>set (generateFinancialDataset tz rs). \<not> is_prev_year prev cur"
  proof -
    from that have "\<forall>p\<in>set ?U. \<not> is_prev_year p c"
      unfolding ds cur by (simp add: is_prev_with_changes)
    from prev_none(2) [OF this] show ?thesis
      unfolding cur with_changes_alt set_changes_deltas by (simp add: amounts_def c0)
  qed
  from mom yoy nom noy show ?thesis by blast
qed


lemma first_location_in_dataset:
  assumes "j < 64"
  shows "with_changes (unsorted_dataset tz rs)
           (generateMonthlyFinancialData tz (month_date j) LOC001 (advance (53 * j) rs))
     \<in> set (generateFinancialDataset tz rs)"
proof -
  have "generateMonthlyFinancialData tz (month_date j) LOC001 (advance (53 * j) rs)
      \<in> set (location_months tz LOC001 rs)"
    unfolding location_months_mem using assms by blast
  then have "generateMonthlyFinancialData tz (month_date j) LOC001 (advance (53 * j) rs)
      \<in> set (unsorted_dataset tz rs)"
    by (simp add: unsorted_dataset_def)
  then show ?thesis unfolding dataset_shape by simp
qed

lemma dataset_year: "r \<in> set (generateFinancialDataset tz rs) \<Longrightarrow> 2020 \<le> Year r"
  by (erule dataset_record)
     (simp add: with_changes_fields gm_keys month_date_def Date_local_def)

theorem comparative_changes_witness:
  "\<exists>cur prev. cur \<in> set (generateFinancialDataset 0 (\<lambda>_. 0)) \<and>
     prev \<in> set (generateFinancialDataset 0 (\<lambda>_. 0)) \<and> is_prev_month prev cur \<and>
     Location_ID cur = ''LOC001'' \<and> Year cur = 2020 \<and> Month cur = 2 \<and> Month prev = 1 \<and>
     Total_Revenue prev = 257231 \<and>
     close_to (Revenue_MoM_Change cur)
       ((real_of_int (Total_Revenue cur) - 257231) / 257231) \<and>
     Revenue_YoY_Change cur = Number 0 \<and> EBITDA_YoY_Change cur = Number 0 \<and>
     Revenue_MoM_Change prev = Number 0 \<and> EBITDA_MoM_Change prev = Number 0"
proof -
  let ?rs = "\<lambda>_::nat. 0::real"
  let ?ds = "generateFinancialDataset 0 ?rs"
  let ?U = "unsorted_dataset 0 ?rs"
  define prev where "prev = with_changes ?U (generateMonthlyFinancialData 0 (month_date 0) LOC001 ?rs)"
  define cur where "cur = with_changes ?U (generateMonthlyFinancialData 0 (month_date 1) LOC001 ?rs)"
  note u = unit_draws_zero
  have pm: "prev \<in> set ?ds" unfolding prev_def by (rule first_record_in_dataset)
  have cm: "cur \<in> set ?ds"
    using first_location_in_dataset [of 1 0 ?rs] by (simp add: cur_def advance_zero)
  have kp: "Location_ID prev = ''LOC001''" "Year prev = 2020" "Month prev = 1"
    unfolding prev_def with_changes_fields gm_keys
    by (simp_all add: loc_ids month_date_def Date_local_def)
  have kc: "Location_ID cur = ''LOC001''" "Year cur = 2020" "Month cur = 2"
    unfolding cur_def with_changes_fields gm_keys
    by (simp_all add: loc_ids month_date_def Date_local_def)
  have T: "Total_Revenue prev = 257231"
    unfolding prev_def with_changes_fields gm_funnel by (rule sample_totalRevenue)
  have ipm: "is_prev_month prev cur" by (simp add: is_prev_month_def kp kc)
  have ny: "\<forall>p\<in>set ?ds. \<not> is_prev_year p cur"
    using dataset_year [of _ 0 ?rs] by (fastforce simp: is_prev_year_def kc)
  have nm: "\<forall>p\<in>set ?ds. \<not> is_prev_month p prev"
    using dataset_year [of _ 0 ?rs] by (fastforce simp: is_prev_month_def kp)
  from comparative_changes [OF u cm] pm ipm ny
  have 1: "close_to (Revenue_MoM_Change cur)
       ((real_of_int (Total_Revenue cur) - real_of_int (Total_Revenue prev))
          / real_of_int (Total_Revenue prev))"
    and 2: "Revenue_YoY_Change cur = Number 0" "EBITDA_YoY_Change cur = Number 0"
    by blast+
  from comparative_changes [OF u pm] nm
  have 3: "Revenue_MoM_Change prev = Number 0" "EBITDA_MoM_Change prev = Number 0"
    by blast+
  from 1 have "close_to (Revenue_MoM_Change cur)
       ((real_of_int (Total_Revenue cur) - 257231) / 257231)" unfolding T by simp
  with pm cm ipm kc kp T 2 3 show ?thesis by blast
qed

end
